theory Spec2Isabelle
  imports Complex_Main
begin

section \<open>JavaScript numbers\<close>

text \<open>
  The library computes on JavaScript Numbers. A Number is modelled as an exact real, or one
  of the three special values \<open>+Infinity\<close>, \<open>-Infinity\<close> and \<open>NaN\<close>. The special
  values follow IEEE 754 as ECMAScript prescribes; arithmetic on finite values is exact:
  rounding, overflow and underflow are not modelled, and there is a single zero, which acts
  as \<open>+0\<close> where it divides.
\<close>

datatype jsnum = Fin real | PInf | NInf | NaN

definition inf_of_sign :: "real \<Rightarrow> jsnum" where
  "inf_of_sign s = (if 0 < s then PInf else if s < 0 then NInf else NaN)"

fun sign_of :: "jsnum \<Rightarrow> real" where
  "sign_of (Fin a) = sgn a"
| "sign_of PInf = 1"
| "sign_of NInf = - 1"
| "sign_of NaN = 0"

fun Number_isFinite :: "jsnum \<Rightarrow> bool" where
  "Number_isFinite (Fin a) = True"
| "Number_isFinite PInf = False"
| "Number_isFinite NInf = False"
| "Number_isFinite NaN = False"

instantiation jsnum :: "{plus, uminus, minus, times, inverse, ord}"
begin

fun plus_jsnum :: "jsnum \<Rightarrow> jsnum \<Rightarrow> jsnum" where
  "plus_jsnum (Fin a) (Fin b) = Fin (a + b)"
| "plus_jsnum NaN b = NaN"
| "plus_jsnum a NaN = NaN"
| "plus_jsnum PInf NInf = NaN"
| "plus_jsnum NInf PInf = NaN"
| "plus_jsnum PInf b = PInf"
| "plus_jsnum a PInf = PInf"
| "plus_jsnum NInf b = NInf"
| "plus_jsnum a NInf = NInf"

fun uminus_jsnum :: "jsnum \<Rightarrow> jsnum" where
  "uminus_jsnum (Fin a) = Fin (- a)"
| "uminus_jsnum PInf = NInf"
| "uminus_jsnum NInf = PInf"
| "uminus_jsnum NaN = NaN"

definition minus_jsnum :: "jsnum \<Rightarrow> jsnum \<Rightarrow> jsnum" where
  "minus_jsnum a b = a + (- b)"

fun times_jsnum :: "jsnum \<Rightarrow> jsnum \<Rightarrow> jsnum" where
  "times_jsnum (Fin a) (Fin b) = Fin (a * b)"
| "times_jsnum NaN b = NaN"
| "times_jsnum a NaN = NaN"
| "times_jsnum a b = inf_of_sign (sign_of a * sign_of b)"

text \<open>Division: a zero divisor is \<open>+0\<close>, so the sign of the dividend decides.\<close>

fun divide_jsnum :: "jsnum \<Rightarrow> jsnum \<Rightarrow> jsnum" where
  "divide_jsnum (Fin a) (Fin b) = (if b = 0 then inf_of_sign a else Fin (a / b))"
| "divide_jsnum NaN b = NaN"
| "divide_jsnum a NaN = NaN"
| "divide_jsnum (Fin a) b = Fin 0"
| "divide_jsnum PInf (Fin b) = (if b < 0 then NInf else PInf)"
| "divide_jsnum NInf (Fin b) = (if b < 0 then PInf else NInf)"
| "divide_jsnum a b = NaN"

definition inverse_jsnum :: "jsnum \<Rightarrow> jsnum" where
  "inverse_jsnum a = divide (Fin 1) a"

text \<open>The relational operators \<open><\<close> and \<open><=\<close>: every comparison with \<open>NaN\<close> is false.\<close>

fun less_jsnum :: "jsnum \<Rightarrow> jsnum \<Rightarrow> bool" where
  "less_jsnum (Fin a) (Fin b) = (a < b)"
| "less_jsnum NaN b = False"
| "less_jsnum a NaN = False"
| "less_jsnum a PInf = (a \<noteq> PInf)"
| "less_jsnum NInf b = (b \<noteq> NInf)"
| "less_jsnum a b = False"

fun less_eq_jsnum :: "jsnum \<Rightarrow> jsnum \<Rightarrow> bool" where
  "less_eq_jsnum (Fin a) (Fin b) = (a \<le> b)"
| "less_eq_jsnum NaN b = False"
| "less_eq_jsnum a NaN = False"
| "less_eq_jsnum a PInf = True"
| "less_eq_jsnum NInf b = True"
| "less_eq_jsnum a b = False"

instance ..

end

text \<open>Strict equality \<open>===\<close> on Numbers: \<open>NaN\<close> differs from everything, itself included.\<close>

definition js_eq :: "jsnum \<Rightarrow> jsnum \<Rightarrow> bool" where
  "js_eq a b = (a \<noteq> NaN \<and> b \<noteq> NaN \<and> a = b)"

text \<open>A Number is falsy when it is zero or \<open>NaN\<close>.\<close>

definition falsy :: "jsnum \<Rightarrow> bool" where
  "falsy a = (a = Fin 0 \<or> a = NaN)"

fun Math_abs :: "jsnum \<Rightarrow> jsnum" where
  "Math_abs (Fin a) = Fin \<bar>a\<bar>"
| "Math_abs PInf = PInf"
| "Math_abs NInf = PInf"
| "Math_abs NaN = NaN"

fun Math_min :: "jsnum \<Rightarrow> jsnum \<Rightarrow> jsnum" where
  "Math_min NaN b = NaN"
| "Math_min a NaN = NaN"
| "Math_min a b = (if a \<le> b then a else b)"

text \<open>\<open>Math.round\<close> of a finite number: the nearest integer, a tie going up.\<close>

definition Math_round :: "real \<Rightarrow> int" where
  "Math_round x = \<lfloor>x + 1 / 2\<rfloor>"

definition is_int :: "real \<Rightarrow> bool" where
  "is_int e = (e = of_int \<lfloor>e\<rfloor>)"

definition is_odd_int :: "real \<Rightarrow> bool" where
  "is_odd_int e = (is_int e \<and> odd \<lfloor>e\<rfloor>)"

text \<open>
  The power of a non-zero finite base to a non-zero finite exponent: repeated multiplication
  (or its reciprocal) for an integral exponent, the real power otherwise.
\<close>

definition real_pow :: "real \<Rightarrow> real \<Rightarrow> real" where
  "real_pow x e =
     (if is_int e then (if 0 \<le> e then x ^ nat \<lfloor>e\<rfloor> else 1 / x ^ nat \<lfloor>- e\<rfloor>)
      else x powr e)"

text \<open>\<open>Math.pow\<close>, case by case as ECMAScript's \<open>Number::exponentiate\<close> lists them.\<close>

fun Math_pow :: "jsnum \<Rightarrow> jsnum \<Rightarrow> jsnum" where
  "Math_pow b NaN = NaN"
| "Math_pow b (Fin e) =
     (if e = 0 then Fin 1
      else case b of
        NaN \<Rightarrow> NaN
      | PInf \<Rightarrow> (if 0 < e then PInf else Fin 0)
      | NInf \<Rightarrow> (if 0 < e then (if is_odd_int e then NInf else PInf) else Fin 0)
      | Fin x \<Rightarrow>
          (if x = 0 then (if 0 < e then Fin 0 else PInf)
           else if x < 0 \<and> \<not> is_int e then NaN
           else Fin (real_pow x e)))"
| "Math_pow b PInf =
     (case b of
        NaN \<Rightarrow> NaN
      | PInf \<Rightarrow> PInf
      | NInf \<Rightarrow> PInf
      | Fin x \<Rightarrow> (if 1 < \<bar>x\<bar> then PInf else if \<bar>x\<bar> = 1 then NaN else Fin 0))"
| "Math_pow b NInf =
     (case b of
        NaN \<Rightarrow> NaN
      | PInf \<Rightarrow> Fin 0
      | NInf \<Rightarrow> Fin 0
      | Fin x \<Rightarrow> (if 1 < \<bar>x\<bar> then Fin 0 else if \<bar>x\<bar> = 1 then NaN else PInf))"

section \<open>Errors and array helpers\<close>

text \<open>The library throws \<open>Error\<close> objects; each message is one error kind.\<close>

datatype error =
    InvalidRate
  | InvalidDate
  | UnsupportedBasis
  | LengthMismatch
  | RootNotBracketed
  | InvalidWeights
  | NonConvergentGrowth

text \<open>
  \<open>Array.prototype.reduce\<close> with an initial value: the callback gets the accumulator,
  the element and its index, left to right.
\<close>

fun reduce_from :: "('b \<Rightarrow> 'a \<Rightarrow> nat \<Rightarrow> 'b) \<Rightarrow> nat \<Rightarrow> 'a list \<Rightarrow> 'b \<Rightarrow> 'b" where
  "reduce_from g i [] acc = acc"
| "reduce_from g i (x # xs) acc = reduce_from g (Suc i) xs (g acc x i)"

definition reduce :: "('b \<Rightarrow> 'a \<Rightarrow> nat \<Rightarrow> 'b) \<Rightarrow> 'a list \<Rightarrow> 'b \<Rightarrow> 'b" where
  "reduce g xs init = reduce_from g 0 xs init"

text \<open>The array index \<open>t\<close> as a Number.\<close>

definition idx :: "nat \<Rightarrow> jsnum" where
  "idx t = Fin (real t)"

section \<open>Present value\<close>

definition npv :: "jsnum \<Rightarrow> jsnum list \<Rightarrow> error + jsnum" where
  "npv rate cashflows =
     (if \<not> Number_isFinite rate then Inl InvalidRate
      else Inr (reduce (\<lambda>acc cf t. acc + cf / Math_pow (Fin 1 + rate) (idx t))
                  cashflows (Fin 0)))"

text \<open>
  \<open>irr\<close>: the payoff \<open>f\<close> and its closed-form derivative \<open>df\<close>, the Newton loop
  (at most 50 rounds) and the bisection loop (200 rounds). A loop yields \<open>Some r\<close> where
  the source returns \<open>r\<close> from inside it, and \<open>None\<close> where control leaves the loop
  (by \<open>break\<close> or by exhausting the counter).
\<close>

definition irr_f :: "jsnum list \<Rightarrow> jsnum \<Rightarrow> jsnum" where
  "irr_f cashflows r =
     reduce (\<lambda>acc cf t. acc + cf / Math_pow (Fin 1 + r) (idx t)) cashflows (Fin 0)"

definition irr_df :: "jsnum list \<Rightarrow> jsnum \<Rightarrow> jsnum" where
  "irr_df cashflows r =
     reduce (\<lambda>acc cf t.
        acc + (if t \<noteq> 0 then (- idx t) * cf / Math_pow (Fin 1 + r) (idx t + Fin 1) else Fin 0))
       cashflows (Fin 0)"

fun irr_newton :: "(jsnum \<Rightarrow> jsnum) \<Rightarrow> (jsnum \<Rightarrow> jsnum) \<Rightarrow> nat \<Rightarrow> jsnum \<Rightarrow> jsnum option" where
  "irr_newton f df 0 r = None"
| "irr_newton f df (Suc n) r =
     (let y = f r; dy = df r in
      if Math_abs y < Fin (1 / 10 ^ 10) then Some r
      else if js_eq dy (Fin 0) \<or> \<not> Number_isFinite dy then None
      else let r1 = r - y / dy in
        if \<not> Number_isFinite r1 \<or> r1 \<le> Fin (- 0.999999) then None
        else irr_newton f df n r1)"

text \<open>In the bisection loops \<open>fhi\<close> is assigned but never read, so it is not carried.\<close>

fun irr_bisect :: "(jsnum \<Rightarrow> jsnum) \<Rightarrow> nat \<Rightarrow> jsnum \<Rightarrow> jsnum \<Rightarrow> jsnum \<Rightarrow> jsnum" where
  "irr_bisect f 0 lo hi flo = (lo + hi) / Fin 2"
| "irr_bisect f (Suc n) lo hi flo =
     (let mid = (lo + hi) / Fin 2; fm = f mid in
      if Math_abs fm < Fin (1 / 10 ^ 10) then mid
      else if flo * fm \<le> Fin 0 then irr_bisect f n lo mid flo
      else irr_bisect f n mid hi fm)"

definition irr :: "jsnum list \<Rightarrow> jsnum \<Rightarrow> error + jsnum" where
  "irr cashflows guess =
     (let f = irr_f cashflows; df = irr_df cashflows in
      case irr_newton f df 50 guess of
        Some r \<Rightarrow> Inr r
      | None \<Rightarrow>
          (let lo = Fin (- 0.9); hi = Fin 10.0; flo = f lo; fhi = f hi in
           if Fin 0 < flo * fhi then Inl RootNotBracketed
           else Inr (irr_bisect f 200 lo hi flo)))"

text \<open>The default of the \<open>guess\<close> parameter of \<open>irr\<close> and \<open>xirr\<close>.\<close>

definition default_guess :: jsnum where
  "default_guess = Fin 0.1"

section \<open>Dates and day counts\<close>

text \<open>
  A date argument is given by what the \<open>Date\<close> constructor makes of it: \<open>Some ms\<close>, the
  time value in milliseconds since the epoch, when it parses to a valid calendar date, and
  \<open>None\<close> otherwise (the object is then an Invalid Date, whose time value is \<open>NaN\<close>).
\<close>

type_synonym date_arg = "int option"

text \<open>The values \<open>yearFrac\<close> handles: Number primitives and \<open>Date\<close> objects.\<close>

datatype jsval = Num jsnum | DateObj jsnum

definition new_Date :: "date_arg \<Rightarrow> jsval" where
  "new_Date d = DateObj (case d of None \<Rightarrow> NaN | Some ms \<Rightarrow> Fin (of_int ms))"

text \<open>
  \<open>Number.isNaN\<close> does not convert its argument: it is true of the Number \<open>NaN\<close> only,
  and false of every object.
\<close>

fun Number_isNaN :: "jsval \<Rightarrow> bool" where
  "Number_isNaN (Num a) = (a = NaN)"
| "Number_isNaN (DateObj tv) = False"

text \<open>Arithmetic on a \<open>Date\<close> object converts it to its time value.\<close>

fun ToNumber :: "jsval \<Rightarrow> jsnum" where
  "ToNumber (Num a) = a"
| "ToNumber (DateObj tv) = tv"

text \<open>
  The UTC calendar fields of a time value: the day number since the epoch, then the
  proleptic Gregorian year, month (1 to 12) and day of the month.
\<close>

definition civil_from_days :: "int \<Rightarrow> int \<times> int \<times> int" where
  "civil_from_days z0 =
     (let z = z0 + 719468;
          era = z div 146097;
          doe = z mod 146097;
          yoe = (doe - doe div 1460 + doe div 36524 - doe div 146096) div 365;
          y = yoe + era * 400;
          doy = doe - (365 * yoe + yoe div 4 - yoe div 100);
          mp = (5 * doy + 2) div 153;
          d = doy - (153 * mp + 2) div 5 + 1;
          m = (if mp < 10 then mp + 3 else mp - 9)
      in (if m \<le> 2 then y + 1 else y, m, d))"

definition date_field :: "(int \<times> int \<times> int \<Rightarrow> int) \<Rightarrow> jsval \<Rightarrow> jsnum" where
  "date_field sel D =
     (case ToNumber D of
        Fin ms \<Rightarrow> Fin (of_int (sel (civil_from_days (\<lfloor>ms\<rfloor> div 86400000))))
      | _ \<Rightarrow> NaN)"

definition getUTCFullYear :: "jsval \<Rightarrow> jsnum" where
  "getUTCFullYear D = date_field (\<lambda>(y, m, d). y) D"

definition getUTCMonth :: "jsval \<Rightarrow> jsnum" where
  "getUTCMonth D = date_field (\<lambda>(y, m, d). m - 1) D"

definition getUTCDate :: "jsval \<Rightarrow> jsnum" where
  "getUTCDate D = date_field (\<lambda>(y, m, d). d) D"

text \<open>
  The \<open>basis\<close> parameter of \<open>yearFrac\<close>, \<open>xnpv\<close> and \<open>xirr\<close> defaults to
  \<open>'ACT/365'\<close> in the source; here it is always passed.
\<close>

definition yearFrac :: "date_arg \<Rightarrow> date_arg \<Rightarrow> string \<Rightarrow> error + jsnum" where
  "yearFrac d0 d1 basis =
     (let D0 = new_Date d0; D1 = new_Date d1 in
      if Number_isNaN D0 \<or> Number_isNaN D1 then Inl InvalidDate
      else if basis = ''ACT/365'' then
        Inr ((ToNumber D1 - ToNumber D0) / Fin (1000 * 60 * 60 * 24 * 365))
      else if basis = ''ACT/360'' then
        Inr ((ToNumber D1 - ToNumber D0) / Fin (1000 * 60 * 60 * 24 * 360))
      else if basis = ''30E/360'' then
        (let y0 = getUTCFullYear D0; m0 = getUTCMonth D0 + Fin 1;
             d0e = Math_min (getUTCDate D0) (Fin 30);
             y1 = getUTCFullYear D1; m1 = getUTCMonth D1 + Fin 1;
             d1e = Math_min (getUTCDate D1) (Fin 30)
         in Inr (((Fin 360 * (y1 - y0)) + Fin 30 * (m1 - m0) + (d1e - d0e)) / Fin 360))
      else Inl UnsupportedBasis)"

text \<open>Sequencing of computations that may throw.\<close>

definition bindE :: "error + 'a \<Rightarrow> ('a \<Rightarrow> error + 'b) \<Rightarrow> error + 'b" where
  "bindE m k = (case m of Inl e \<Rightarrow> Inl e | Inr v \<Rightarrow> k v)"

text \<open>Reading a date array: an index out of range gives \<open>undefined\<close>, an invalid date.\<close>

definition date_at :: "date_arg list \<Rightarrow> nat \<Rightarrow> date_arg" where
  "date_at dates i = (if i < length dates then dates ! i else None)"

definition xnpv :: "jsnum \<Rightarrow> jsnum list \<Rightarrow> date_arg list \<Rightarrow> string \<Rightarrow> error + jsnum" where
  "xnpv rate cashflows dates basis =
     (if length cashflows \<noteq> length dates then Inl LengthMismatch
      else let t0 = date_at dates 0 in
        reduce (\<lambda>acc cf i.
            bindE acc (\<lambda>a.
            bindE (yearFrac t0 (date_at dates i) basis) (\<lambda>yf.
            Inr (a + cf / Math_pow (Fin 1 + rate) yf))))
          cashflows (Inr (Fin 0)))"

text \<open>
  \<open>xirr\<close>: the payoff is \<open>xnpv\<close>, which may throw; the derivative is a central
  difference. The loops are those of \<open>irr\<close> with tolerance \<open>1e-8\<close>.
\<close>

definition xirr_df :: "(jsnum \<Rightarrow> error + jsnum) \<Rightarrow> jsnum \<Rightarrow> error + jsnum" where
  "xirr_df f r =
     (let h = Fin (1 / 10 ^ 6) in
      bindE (f (r + h)) (\<lambda>a. bindE (f (r - h)) (\<lambda>b. Inr ((a - b) / (Fin 2 * h)))))"

fun xirr_newton ::
  "(jsnum \<Rightarrow> error + jsnum) \<Rightarrow> (jsnum \<Rightarrow> error + jsnum) \<Rightarrow> nat \<Rightarrow> jsnum \<Rightarrow> error + jsnum option"
where
  "xirr_newton f df 0 r = Inr None"
| "xirr_newton f df (Suc n) r =
     bindE (f r) (\<lambda>y. bindE (df r) (\<lambda>dy.
       if Math_abs y < Fin (1 / 10 ^ 8) then Inr (Some r)
       else if \<not> Number_isFinite dy \<or> js_eq dy (Fin 0) then Inr None
       else let r1 = r - y / dy in
         if \<not> Number_isFinite r1 \<or> r1 \<le> Fin (- 0.999999) then Inr None
         else xirr_newton f df n r1))"

fun xirr_bisect ::
  "(jsnum \<Rightarrow> error + jsnum) \<Rightarrow> nat \<Rightarrow> jsnum \<Rightarrow> jsnum \<Rightarrow> jsnum \<Rightarrow> error + jsnum"
where
  "xirr_bisect f 0 lo hi flo = Inr ((lo + hi) / Fin 2)"
| "xirr_bisect f (Suc n) lo hi flo =
     (let mid = (lo + hi) / Fin 2 in
      bindE (f mid) (\<lambda>fm.
        if Math_abs fm < Fin (1 / 10 ^ 8) then Inr mid
        else if flo * fm \<le> Fin 0 then xirr_bisect f n lo mid flo
        else xirr_bisect f n mid hi fm))"

definition xirr :: "jsnum list \<Rightarrow> date_arg list \<Rightarrow> jsnum \<Rightarrow> string \<Rightarrow> error + jsnum" where
  "xirr cashflows dates guess basis =
     (let f = (\<lambda>r. xnpv r cashflows dates basis); df = xirr_df f in
      bindE (xirr_newton f df 50 guess) (\<lambda>res.
        case res of
          Some r \<Rightarrow> Inr r
        | None \<Rightarrow>
            (let lo = Fin (- 0.9); hi = Fin 10.0 in
             bindE (f lo) (\<lambda>flo. bindE (f hi) (\<lambda>fhi.
               if Fin 0 < flo * fhi then Inl RootNotBracketed
               else xirr_bisect f 200 lo hi flo)))))"

section \<open>Other formulas\<close>

fun paybackPeriod_loop :: "nat \<Rightarrow> jsnum \<Rightarrow> jsnum list \<Rightarrow> jsnum" where
  "paybackPeriod_loop t cum [] = PInf"
| "paybackPeriod_loop t cum (x # xs) =
     (let prev = cum; cum' = cum + x in
      if Fin 0 \<le> cum' then
        (let needed = - prev; within_t = x;
             frac = (if \<not> js_eq within_t (Fin 0) then needed / within_t else Fin 0)
         in idx t - Fin 1 + frac)
      else paybackPeriod_loop (Suc t) cum' xs)"

definition paybackPeriod :: "jsnum list \<Rightarrow> jsnum" where
  "paybackPeriod cashflows = paybackPeriod_loop 0 (Fin 0) cashflows"

text \<open>\<open>cashflows[0] || 0\<close>: the first element, or 0 when it is missing or falsy.\<close>

definition profitabilityIndex :: "jsnum \<Rightarrow> jsnum list \<Rightarrow> error + jsnum" where
  "profitabilityIndex rate cashflows =
     (let c0 = (case cashflows of [] \<Rightarrow> Fin 0 | c # _ \<Rightarrow> if falsy c then Fin 0 else c) in
      bindE (npv rate (drop 1 cashflows)) (\<lambda>pv. Inr (pv / Math_abs c0)))"

section \<open>Counted loops\<close>

text \<open>
  The loops \<open>for (let t = 1; t <= m; t++)\<close> count in a double. Below \<open>2^53\<close> the
  increment is exact; at \<open>2^53\<close> the sum \<open>t + 1\<close> rounds back to \<open>2^53\<close>, so the
  counter stays there and a loop whose bound is \<open>2^53\<close> or more (or \<open>+Infinity\<close>)
  never ends. The loop is a partial function: \<open>None\<close> stands for a run that does not
  end. The bound is a Number; a \<open>NaN\<close> bound ends the loop at once.
\<close>

definition incr :: "int \<Rightarrow> int" where
  "incr t = (if t < 2 ^ 53 then t + 1 else t)"

partial_function (option) for_loop ::
  "(int \<Rightarrow> 'a \<Rightarrow> 'a) \<Rightarrow> jsnum \<Rightarrow> int \<Rightarrow> 'a \<Rightarrow> 'a option"
where
  "for_loop body m t acc =
     (if Fin (of_int t) \<le> m then for_loop body m (incr t) (body t acc) else Some acc)"

section \<open>Bonds\<close>






section \<open>Duration in rounded arithmetic\<close>

text \<open>
  The specification speaks of the exact value of \<open>macaulayDuration\<close>, so this function
  is modelled on doubles. A double operation computes the exact result and rounds it.
  The rounding is a parameter \<open>fl\<close> of the model: \<open>fl x\<close> is the Number that the real
  \<open>x\<close> rounds to (a double, or an infinity on overflow). \<open>Math.pow\<close> need not be
  correctly rounded; for a finite base and exponent its result is a second parameter
  \<open>pw\<close>. The special values behave as in exact arithmetic.
\<close>

definition rnd :: "(real \<Rightarrow> jsnum) \<Rightarrow> jsnum \<Rightarrow> jsnum" where
  "rnd fl v = (case v of Fin x \<Rightarrow> fl x | _ \<Rightarrow> v)"

definition fl_add :: "(real \<Rightarrow> jsnum) \<Rightarrow> jsnum \<Rightarrow> jsnum \<Rightarrow> jsnum" where
  "fl_add fl a b = rnd fl (a + b)"

definition fl_mul :: "(real \<Rightarrow> jsnum) \<Rightarrow> jsnum \<Rightarrow> jsnum \<Rightarrow> jsnum" where
  "fl_mul fl a b = rnd fl (a * b)"

definition fl_div :: "(real \<Rightarrow> jsnum) \<Rightarrow> jsnum \<Rightarrow> jsnum \<Rightarrow> jsnum" where
  "fl_div fl a b = rnd fl (a / b)"

definition Math_pow_d :: "(real \<Rightarrow> real \<Rightarrow> jsnum) \<Rightarrow> jsnum \<Rightarrow> jsnum \<Rightarrow> jsnum" where
  "Math_pow_d pw b e =
     (case (b, e) of
        (Fin x, Fin ex) \<Rightarrow>
          if ex \<noteq> 0 \<and> x \<noteq> 0 \<and> (0 < x \<or> is_int ex) then pw x ex else Math_pow b e
      | _ \<Rightarrow> Math_pow b e)"

text \<open>\<open>Math.round\<close> of a Number: exact on doubles, the special values unchanged.\<close>

definition Math_round_js :: "jsnum \<Rightarrow> jsnum" where
  "Math_round_js v = (case v of Fin x \<Rightarrow> Fin (of_int (Math_round x)) | _ \<Rightarrow> v)"

text \<open>One round of the duration loop, on the pair \<open>(pvTotal, tWeighted)\<close>.\<close>

fun duration_step ::
  "(real \<Rightarrow> jsnum) \<Rightarrow> (real \<Rightarrow> real \<Rightarrow> jsnum) \<Rightarrow> jsnum \<Rightarrow> jsnum \<Rightarrow> jsnum \<Rightarrow> jsnum \<Rightarrow> jsnum
     \<Rightarrow> int \<Rightarrow> jsnum \<times> jsnum \<Rightarrow> jsnum \<times> jsnum"
where
  "duration_step fl pw c face m y freq t (pvTotal, tWeighted) =
     (let cf = (if Fin (of_int t) < m then c else fl_add fl c face);
          disc = Math_pow_d pw (fl_add fl (Fin 1) y) (Fin (of_int t));
          pv = fl_div fl cf disc
      in (fl_add fl pvTotal pv,
          fl_add fl tWeighted (fl_mul fl (fl_div fl (Fin (of_int t)) freq) pv)))"

definition macaulayDuration ::
  "(real \<Rightarrow> jsnum) \<Rightarrow> (real \<Rightarrow> real \<Rightarrow> jsnum) \<Rightarrow> jsnum \<Rightarrow> jsnum \<Rightarrow> jsnum \<Rightarrow> real \<Rightarrow> real
     \<Rightarrow> jsnum option"
where
  "macaulayDuration fl pw face couponRate yieldRate years freq =
     (let c = fl_div fl (fl_mul fl couponRate face) (Fin freq);
          m = Math_round_js (fl (years * freq));
          y = fl_div fl yieldRate (Fin freq)
      in case for_loop (duration_step fl pw c face m y (Fin freq)) m 1 (Fin 0, Fin 0) of
           None \<Rightarrow> None
         | Some (pvTotal, tWeighted) \<Rightarrow> Some (fl_div fl tWeighted pvTotal))"

text \<open>
  Two instances of the rounding: the exact one, and a coarse one that rounds to the
  nearest multiple of \<open>1/4\<close> (a tie going up), with the power rounded in the same way.
\<close>

definition fl_exact :: "real \<Rightarrow> jsnum" where
  "fl_exact x = Fin x"

definition pw_exact :: "real \<Rightarrow> real \<Rightarrow> jsnum" where
  "pw_exact x e = Fin (real_pow x e)"

definition fl_quarter :: "real \<Rightarrow> jsnum" where
  "fl_quarter x = Fin (of_int \<lfloor>4 * x + 1 / 2\<rfloor> / 4)"

definition pw_quarter :: "real \<Rightarrow> real \<Rightarrow> jsnum" where
  "pw_quarter x e = fl_quarter (real_pow x e)"

section \<open>The specification's formulas\<close>

text \<open>
  The profitability index as the specification words it: the present value of the flows
  after the first, flow \<open>t\<close> discounted over \<open>t\<close> periods, divided by the absolute
  value of the first flow.
\<close>

definition pi_claimed :: "real \<Rightarrow> real list \<Rightarrow> real" where
  "pi_claimed r c = (\<Sum>t = 1..<length c. c ! t / (1 + r) ^ t) / \<bar>c ! 0\<bar>"

text \<open>
  The present value as the specification words it: the sum of \<open>cashflows[t] / (1+rate)^t\<close>
  for \<open>t = 0..N-1\<close>, the terms taken by index and added in JavaScript arithmetic.
\<close>

definition pv_direct :: "jsnum \<Rightarrow> jsnum list \<Rightarrow> jsnum" where
  "pv_direct rate c =
     foldl (+) (Fin 0) (map (\<lambda>t. c ! t / Math_pow (Fin 1 + rate) (idx t)) [0..<length c])"


text \<open>
  The year fraction between two valid dates, given as time values in milliseconds, as
  the specification defines the three day counts: actual days over 365 or 360, or the
  30E/360 count of the UTC calendar fields with the day of the month capped at 30.
\<close>

definition year_fraction :: "int \<Rightarrow> int \<Rightarrow> string \<Rightarrow> real" where
  "year_fraction a b basis =
     (if basis = ''ACT/365'' then (of_int b - of_int a) / (1000 * 60 * 60 * 24 * 365)
      else if basis = ''ACT/360'' then (of_int b - of_int a) / (1000 * 60 * 60 * 24 * 360)
      else
        (case (civil_from_days (a div 86400000), civil_from_days (b div 86400000)) of
           ((y0, m0, d0), (y1, m1, d1)) \<Rightarrow>
             of_int (360 * (y1 - y0) + 30 * (m1 - m0) + (min d1 30 - min d0 30)) / 360))"

section \<open>Basic facts\<close>

lemma bindE_Inr [simp]: "bindE (Inr v) k = k v"
  by (simp add: bindE_def)

lemma bindE_Inl [simp]: "bindE (Inl e) k = Inl e"
  by (simp add: bindE_def)

lemma Math_pow_nat: "x \<noteq> 0 \<Longrightarrow> Math_pow (Fin x) (Fin (real t)) = Fin (x ^ t)"
  by (simp add: real_pow_def is_int_def)


declare Math_pow.simps [simp del]

lemma reduce_from_snoc:
  "reduce_from g i (xs @ [x]) acc = g (reduce_from g i xs acc) x (i + length xs)"
  by (induction xs arbitrary: i acc) simp_all

lemma reduce_snoc: "reduce g (xs @ [x]) init = g (reduce g xs init) x (length xs)"
  by (simp add: reduce_def reduce_from_snoc)

lemma reduce_Nil [simp]: "reduce g [] init = init"
  by (simp add: reduce_def)

lemma div_zero_cases: "pv / Fin 0 \<in> {PInf, NInf, NaN}"
  by (cases pv) (simp_all add: inf_of_sign_def)

lemma yearFrac_never_InvalidDate: "yearFrac d0 d1 basis \<noteq> Inl InvalidDate"
  by (simp add: yearFrac_def new_Date_def Let_def)

section \<open>Present value at a flat rate\<close>

lemma reduce_pv_direct:
  "reduce (\<lambda>acc cf t. acc + cf / Math_pow (Fin 1 + rate) (idx t)) c (Fin 0) = pv_direct rate c"
proof (induction c rule: rev_induct)
  case Nil
  show ?case by (simp add: pv_direct_def)
next
  case (snoc x xs)
  have eq: "map (\<lambda>t. (xs @ [x]) ! t / Math_pow (Fin 1 + rate) (idx t)) [0..<length xs]
      = map (\<lambda>t. xs ! t / Math_pow (Fin 1 + rate) (idx t)) [0..<length xs]"
    by (rule map_cong) (simp_all add: nth_append)
  show ?case
    by (simp add: reduce_snoc snoc.IH pv_direct_def eq)
qed

lemma reduce_real_sum:
  assumes "b \<noteq> 0"
  shows "reduce (\<lambda>acc cf t. acc + cf / Math_pow (Fin b) (idx t)) (map Fin cs) (Fin 0)
       = Fin (\<Sum>t<length cs. cs ! t / b ^ t)"
proof (induction cs rule: rev_induct)
  case Nil
  show ?case by simp
next
  case (snoc x xs)
  have eq: "(\<Sum>t<length xs. (xs @ [x]) ! t / b ^ t) = (\<Sum>t<length xs. xs ! t / b ^ t)"
    by (rule sum.cong) (simp_all add: nth_append)
  have pw: "Math_pow (Fin b) (idx (length xs)) = Fin (b ^ length xs)"
    unfolding idx_def by (rule Math_pow_nat [OF assms])
  show ?case
    using assms by (simp add: reduce_snoc snoc.IH pw eq)
qed

text \<open>
  Claim C6: for every finite rate and every cashflow list, \<open>npv\<close> returns the sum over
  \<open>t = 0..N-1\<close> of \<open>c[t]/(1+r)^t\<close>; for every rate that is not finite it fails with
  \<open>InvalidRate\<close>. The sum is \<open>pv_direct\<close>, in JavaScript arithmetic; for finite flows
  and \<open>1 + r \<noteq> 0\<close> it is the sum of real numbers.
\<close>

theorem npv_direct_sum:
  "(Number_isFinite rate \<longrightarrow> npv rate c = Inr (pv_direct rate c)) \<and>
   (1 + r \<noteq> 0 \<longrightarrow> npv (Fin r) (map Fin cs) = Inr (Fin (\<Sum>t<length cs. cs ! t / (1 + r) ^ t))) \<and>
   (\<not> Number_isFinite rate \<longrightarrow> npv rate c = Inl InvalidRate)"
  by (simp add: npv_def reduce_pv_direct reduce_real_sum)

theorem npv_direct_sum_witness:
  "Number_isFinite (Fin 0.1) \<and> 1 + (0.1::real) \<noteq> 0 \<and> \<not> Number_isFinite NaN \<and>
   npv (Fin 0.1) (map Fin [- 100, 50, 60]) = Inr (pv_direct (Fin 0.1) (map Fin [- 100, 50, 60])) \<and>
   npv (Fin 0.1) (map Fin [- 100, 50, 60])
     = Inr (Fin (\<Sum>t<length [- 100, 50, 60 :: real]. [- 100, 50, 60] ! t / (1 + 0.1) ^ t)) \<and>
   npv NaN (map Fin [- 100, 50, 60]) = Inl InvalidRate"
  using npv_direct_sum [of "Fin 0.1" "map Fin [- 100, 50, 60]" "0.1" "[- 100, 50, 60]"]
    npv_direct_sum [of NaN "map Fin [- 100, 50, 60]" "0.1" "[- 100, 50, 60]"]
  by simp

section \<open>Day counts and invalid dates\<close>

text \<open>
  The errors that date-weighted valuation can raise: \<open>InvalidDate\<close> is not among them.
\<close>

lemma yearFrac_errors: "yearFrac d0 d1 basis = Inl e \<Longrightarrow> e = UnsupportedBasis"
  by (simp add: yearFrac_def new_Date_def Let_def split: if_splits)

lemma xnpv_errors:
  assumes "xnpv rate cashflows dates basis = Inl e"
  shows "e = LengthMismatch \<or> e = UnsupportedBasis"
proof -
  have step: "reduce_from (\<lambda>acc cf i. bindE acc (\<lambda>a.
        bindE (yearFrac t0 (date_at dates i) basis) (\<lambda>yf.
        Inr (a + cf / Math_pow (Fin 1 + rate) yf)))) i cs acc = Inl e \<Longrightarrow>
      acc = Inl e \<or> e = UnsupportedBasis" for t0 i cs acc
  proof (induction cs arbitrary: acc i)
    case Nil
    then show ?case by simp
  next
    case (Cons c cs)
    from Cons.IH [OF Cons.prems [unfolded reduce_from.simps]] show ?case
      by (auto simp: bindE_def split: sum.splits dest: yearFrac_errors)
  qed
  from assms show ?thesis
    by (auto simp: xnpv_def reduce_def Let_def split: if_splits dest: step)
qed

lemma xirr_newton_errors:
  assumes f: "\<And>x e. f x = Inl e \<Longrightarrow> P e"
  shows "xirr_newton f (xirr_df f) n r = Inl e \<Longrightarrow> P e"
proof (induction n arbitrary: r)
  case 0
  then show ?case by simp
next
  case (Suc n)
  then show ?case
    by (auto simp: bindE_def xirr_df_def Let_def split: sum.splits if_splits dest: f)
qed

lemma xirr_bisect_errors:
  assumes f: "\<And>x e. f x = Inl e \<Longrightarrow> P e"
  shows "xirr_bisect f n lo hi flo = Inl e \<Longrightarrow> P e"
proof (induction n arbitrary: lo hi flo)
  case 0
  then show ?case by simp
next
  case (Suc n)
  then show ?case
    by (auto simp: bindE_def Let_def split: sum.splits if_splits dest: f)
qed

lemma xirr_errors:
  assumes "xirr cashflows dates guess basis = Inl e"
  shows "e = LengthMismatch \<or> e = UnsupportedBasis \<or> e = RootNotBracketed"
proof -
  define P where "P = (\<lambda>e. e = LengthMismatch \<or> e = UnsupportedBasis \<or> e = RootNotBracketed)"
  define f where "f = (\<lambda>r. xnpv r cashflows dates basis)"
  have f: "P e" if "f x = Inl e" for x e
    using xnpv_errors [of x cashflows dates basis e] that by (auto simp: f_def P_def)
  have r: "P RootNotBracketed" by (simp add: P_def)
  have nw: "P e" if "xirr_newton f (xirr_df f) n x = Inl e" for n x e
    using f that by (rule xirr_newton_errors)
  have bs: "P e" if "xirr_bisect f n lo hi flo = Inl e" for n lo hi flo e
    using f that by (rule xirr_bisect_errors)
  from assms have "P e"
    unfolding xirr_def f_def [symmetric] Let_def
    by (auto simp: bindE_def r split: sum.splits option.splits if_splits dest: f nw bs)
  then show ?thesis by (simp add: P_def)
qed

text \<open>
  Claim C3 says that \<open>yearFrac\<close>, and with it \<open>xnpv\<close> and \<open>xirr\<close>, fails with
  \<open>InvalidDate\<close> as soon as one of the two dates does not parse. The guard of the source
  applies \<open>Number.isNaN\<close> to the \<open>Date\<close> objects themselves, which is false of every
  object, so the error is never raised (lemmas \<open>yearFrac_errors\<close>, \<open>xnpv_errors\<close> and
  \<open>xirr_errors\<close>): with an unparseable first or second date the ACT/365 year fraction
  is \<open>NaN\<close>, and \<open>xnpv\<close> returns \<open>NaN\<close>.
\<close>

theorem yearFrac_invalid_date_not_rejected:
  "yearFrac None (Some 0) ''ACT/365'' = Inr NaN \<and>
   yearFrac (Some 0) None ''ACT/365'' = Inr NaN \<and>
   xnpv (Fin 0.1) [Fin (- 100), Fin 110] [Some 0, None] ''ACT/365'' = Inr NaN"
  by (simp add: yearFrac_def new_Date_def xnpv_def reduce_def date_at_def minus_jsnum_def
      Math_pow.simps)

section \<open>Profitability index\<close>

text \<open>
  Claim C4 says that \<open>profitabilityIndex(r, c)\<close> is the sum over \<open>t = 1..N-1\<close> of
  \<open>c[t]/(1+r)^t\<close>, divided by \<open>|c[0]|\<close>. The source hands \<open>cashflows.slice(1)\<close> to
  \<open>npv\<close>, which numbers the flows again from 0, so that flow \<open>t\<close> is discounted over
  \<open>t - 1\<close> periods: at rate 0.1 the flows \<open>[-100, 50, 60]\<close> give \<open>23/22\<close>, above 1,
  where the claimed formula gives \<open>115/121\<close>, below 1.
\<close>

theorem profitabilityIndex_shifted_discount:
  "profitabilityIndex (Fin 0.1) (map Fin [- 100, 50, 60]) = Inr (Fin (23 / 22)) \<and>
   pi_claimed 0.1 [- 100, 50, 60] = 115 / 121"
proof -
  have "{1..<3::nat} = {1, 2}" by auto
  then have "pi_claimed 0.1 [- 100, 50, 60] = 115 / 121"
    by (simp add: pi_claimed_def power2_eq_square)
  moreover have "profitabilityIndex (Fin 0.1) (map Fin [- 100, 50, 60]) = Inr (Fin (23 / 22))"
    by (simp add: profitabilityIndex_def npv_def reduce_def falsy_def idx_def
        Math_pow.simps real_pow_def is_int_def)
  ultimately show ?thesis by simp
qed

text \<open>
  In general, for finite flows, \<open>1 + r \<noteq> 0\<close> and a first flow other than 0, the source
  discounts the flow at index \<open>t + 1\<close> over \<open>t\<close> periods.
\<close>

lemma profitabilityIndex_real:
  assumes "1 + r \<noteq> 0" and "c0 \<noteq> 0"
  shows "profitabilityIndex (Fin r) (map Fin (c0 # rest))
       = Inr (Fin ((\<Sum>t<length rest. rest ! t / (1 + r) ^ t) / \<bar>c0\<bar>))"
  using assms reduce_real_sum [of "1 + r" rest]
  by (simp add: profitabilityIndex_def npv_def falsy_def)

text \<open>
  Claim C10, as stated: with \<open>cashflows[0] = 0\<close> the function does not fail. It does
  when the rate is not finite, since \<open>npv\<close> rejects the rate before the division.
\<close>

theorem profitabilityIndex_NaN_rate_fails:
  "profitabilityIndex NaN [Fin 0, Fin 1] = Inl InvalidRate"
  by (simp add: profitabilityIndex_def npv_def)

text \<open>
  Claim C10, amended: for every finite rate, \<open>profitabilityIndex\<close> with
  \<open>cashflows[0] = 0\<close> does not fail; it returns the discounted sum \<open>pv\<close> of the
  remaining flows (as \<open>npv\<close> computes it) divided by \<open>|0|\<close>, which is \<open>+Infinity\<close>,
  \<open>-Infinity\<close> or \<open>NaN\<close>, and is \<open>NaN\<close> when \<open>pv\<close> is 0. With a rate that is not
  finite it fails with \<open>InvalidRate\<close>, whatever the cashflows.
\<close>

theorem profitabilityIndex_zero_outlay:
  "(Number_isFinite rate \<longrightarrow>
      (\<exists>pv. npv rate rest = Inr pv \<and>
         profitabilityIndex rate (Fin 0 # rest) = Inr (pv / Fin 0) \<and>
         pv / Fin 0 \<in> {PInf, NInf, NaN} \<and>
         (pv = Fin 0 \<longrightarrow> pv / Fin 0 = NaN))) \<and>
   (\<not> Number_isFinite rate \<longrightarrow> profitabilityIndex rate cashflows = Inl InvalidRate)"
  using div_zero_cases
  by (simp add: profitabilityIndex_def npv_def falsy_def inf_of_sign_def)

theorem profitabilityIndex_zero_outlay_witness:
  "Number_isFinite (Fin 0.1) \<and> \<not> Number_isFinite PInf \<and>
   (\<exists>pv. npv (Fin 0.1) [Fin 1] = Inr pv \<and>
      profitabilityIndex (Fin 0.1) [Fin 0, Fin 1] = Inr (pv / Fin 0) \<and>
      pv / Fin 0 \<in> {PInf, NInf, NaN}) \<and>
   profitabilityIndex PInf [Fin 0, Fin 1] = Inl InvalidRate"
  using profitabilityIndex_zero_outlay [of "Fin 0.1" "[Fin 1]" "[Fin 0, Fin 1]"]
    profitabilityIndex_zero_outlay [of PInf "[Fin 1]" "[Fin 0, Fin 1]"]
  by auto

section \<open>Payback period\<close>

text \<open>
  Claim C8: for every cashflow list whose first element is greater than or equal to 0,
  \<open>paybackPeriod\<close> returns \<open>-1\<close>: the cumulative sum is non-negative at index 0, the
  interpolation fraction is 0, and the result is \<open>0 - 1 + 0\<close>.
\<close>

theorem paybackPeriod_first_nonneg:
  "Fin 0 \<le> c0 \<Longrightarrow> paybackPeriod (c0 # rest) = Fin (- 1)"
  by (cases c0) (simp_all add: paybackPeriod_def js_eq_def idx_def minus_jsnum_def)

theorem paybackPeriod_first_nonneg_witness:
  "Fin 0 \<le> Fin 5 \<and> paybackPeriod [Fin 5, Fin 3] = Fin (- 1)"
  using paybackPeriod_first_nonneg [of "Fin 5" "[Fin 3]"] by simp

section \<open>Present value by date\<close>

lemma yearFrac_ACT365:
  "yearFrac (Some a) (Some (a + 31536000000 * int i)) ''ACT/365'' = Inr (idx i)"
  by (simp add: yearFrac_def new_Date_def minus_jsnum_def idx_def)

lemma xnpv_reduce_365:
  assumes "date_at dates 0 = Some t0"
    and "\<forall>j<length xs. date_at dates (i + j) = Some (t0 + 31536000000 * int (i + j))"
  shows "reduce_from (\<lambda>acc cf i. bindE acc (\<lambda>a.
            bindE (yearFrac (date_at dates 0) (date_at dates i) ''ACT/365'') (\<lambda>yf.
            Inr (a + cf / Math_pow (Fin 1 + rate) yf)))) i xs (Inr a)
       = Inr (reduce_from (\<lambda>acc cf t. acc + cf / Math_pow (Fin 1 + rate) (idx t)) i xs a)"
  using assms(2)
proof (induction xs arbitrary: i a)
  case Nil
  show ?case by simp
next
  case (Cons x xs)
  from Cons.prems have d: "date_at dates i = Some (t0 + 31536000000 * int i)"
    by force
  from Cons.prems
  have "\<forall>j<length xs. date_at dates (Suc i + j) = Some (t0 + 31536000000 * int (Suc i + j))"
    by force
  from Cons.IH [OF this] show ?case
    by (simp add: assms(1) d yearFrac_ACT365)
qed

text \<open>
  Claim C7: for every finite rate (so in particular when \<open>1 + r > 0\<close>) and every cashflow
  list paired with a list of valid dates of the same length in which date \<open>i\<close> lies
  exactly \<open>365 * i\<close> days (of 86400000 ms) after the first, \<open>xnpv\<close> with basis ACT/365
  equals \<open>npv\<close> on the same rate and cashflows: the year fractions are 0, 1, 2, ...
\<close>

theorem xnpv_365_day_spacing:
  assumes "Number_isFinite rate"
    and "length dates = length cashflows"
    and "\<forall>i<length dates. dates ! i = Some (t0 + 365 * 86400000 * int i)"
  shows "xnpv rate cashflows dates ''ACT/365'' = npv rate cashflows"
proof (cases dates)
  case Nil
  with assms show ?thesis by (simp add: xnpv_def npv_def)
next
  case (Cons d ds)
  with assms(3) have d0: "date_at dates 0 = Some t0"
    by (auto simp: date_at_def)
  from assms(2,3)
  have "\<forall>j<length cashflows. date_at dates (0 + j) = Some (t0 + 31536000000 * int (0 + j))"
    by (simp add: date_at_def)
  from xnpv_reduce_365 [OF d0 this] assms(1,2) show ?thesis
    by (simp add: xnpv_def npv_def reduce_def)
qed

theorem xnpv_365_day_spacing_witness:
  "Number_isFinite (Fin 0.1) \<and>
   length [Some 0, Some 31536000000, Some (63072000000::int)] = length [Fin (- 100), Fin 50, Fin 60] \<and>
   xnpv (Fin 0.1) [Fin (- 100), Fin 50, Fin 60] [Some 0, Some 31536000000, Some 63072000000]
      ''ACT/365''
     = npv (Fin 0.1) [Fin (- 100), Fin 50, Fin 60]"
proof -
  have "\<forall>i<length [Some 0, Some 31536000000, Some (63072000000::int)].
          [Some 0, Some 31536000000, Some 63072000000] ! i = Some (0 + 365 * 86400000 * int i)"
    by (simp add: less_Suc_eq nth_Cons')
  from xnpv_365_day_spacing [of "Fin 0.1" _ "[Fin (- 100), Fin 50, Fin 60]", OF _ _ this]
  show ?thesis by simp
qed

text \<open>
  Claim C9, as stated: with a rate that is not finite, \<open>xnpv\<close> returns a number that is
  not finite. With rate \<open>+Infinity\<close> and a single flow of 5 on the base date, the year
  fraction is 0, \<open>Math.pow(Infinity, 0)\<close> is 1, and the result is 5.
\<close>

theorem xnpv_infinite_rate_finite_result:
  "xnpv PInf [Fin 5] [Some 0] ''ACT/365'' = Inr (Fin 5)"
  by (simp add: yearFrac_def new_Date_def xnpv_def reduce_def date_at_def minus_jsnum_def
      Math_pow.simps)

text \<open>The value of \<open>xnpv\<close> on valid dates, term by term.\<close>

lemma yearFrac_valid_eq:
  assumes "basis \<in> {''ACT/365'', ''ACT/360'', ''30E/360''}"
  shows "yearFrac (Some a) (Some b) basis = Inr (Fin (year_fraction a b basis))"
proof -
  obtain y0 m0 d0 where c0: "civil_from_days (a div 86400000) = (y0, m0, d0)"
    by (cases "civil_from_days (a div 86400000)") auto
  obtain y1 m1 d1 where c1: "civil_from_days (b div 86400000) = (y1, m1, d1)"
    by (cases "civil_from_days (b div 86400000)") auto
  have "yearFrac (Some a) (Some b) ''30E/360'' = Inr (Fin (year_fraction a b ''30E/360''))"
    by (simp add: yearFrac_def new_Date_def minus_jsnum_def getUTCFullYear_def
        getUTCMonth_def getUTCDate_def date_field_def c0 c1 year_fraction_def min_def)
  moreover
  have "yearFrac (Some a) (Some b) ''ACT/365'' = Inr (Fin (year_fraction a b ''ACT/365''))"
    by (simp add: yearFrac_def new_Date_def minus_jsnum_def year_fraction_def)
  moreover
  have "yearFrac (Some a) (Some b) ''ACT/360'' = Inr (Fin (year_fraction a b ''ACT/360''))"
    by (simp add: yearFrac_def new_Date_def minus_jsnum_def year_fraction_def)
  ultimately show ?thesis
    using assms by auto
qed

lemma reduce_from_Inr:
  assumes "\<And>a x j. j < length xs \<Longrightarrow> G (Inr a) x (i + j) = Inr (g a x (i + j))"
  shows "reduce_from G i xs (Inr a) = Inr (reduce_from g i xs a)"
  using assms
proof (induction xs arbitrary: i a)
  case Nil
  show ?case by simp
next
  case (Cons x xs)
  have "G (Inr a) x i = Inr (g a x i)"
    using Cons.prems [of 0 a x] by simp
  moreover have "reduce_from G (Suc i) xs (Inr b) = Inr (reduce_from g (Suc i) xs b)" for b
    by (rule Cons.IH) (use Cons.prems [of "Suc _"] in simp)
  ultimately show ?case by simp
qed

lemma xnpv_valid:
  assumes "length cashflows = length ds" and "basis \<in> {''ACT/365'', ''ACT/360'', ''30E/360''}"
  shows "xnpv rate cashflows (map Some ds) basis =
     Inr (reduce (\<lambda>acc cf i. acc + cf / Math_pow (Fin 1 + rate)
                    (Fin (year_fraction (ds ! 0) (ds ! i) basis))) cashflows (Fin 0))"
proof (cases ds)
  case Nil
  with assms(1) show ?thesis by (simp add: xnpv_def)
next
  case (Cons d ds')
  then have d0: "date_at (map Some ds) 0 = Some (ds ! 0)"
    by (simp add: date_at_def)
  have "reduce_from (\<lambda>acc cf i. bindE acc (\<lambda>a.
            bindE (yearFrac (date_at (map Some ds) 0) (date_at (map Some ds) i) basis) (\<lambda>yf.
            Inr (a + cf / Math_pow (Fin 1 + rate) yf)))) 0 cashflows (Inr (Fin 0))
      = Inr (reduce_from (\<lambda>acc cf i. acc + cf / Math_pow (Fin 1 + rate)
                    (Fin (year_fraction (ds ! 0) (ds ! i) basis))) 0 cashflows (Fin 0))"
  proof (rule reduce_from_Inr)
    fix a x j
    assume "j < length cashflows"
    then have "date_at (map Some ds) (0 + j) = Some (ds ! j)"
      by (simp add: date_at_def assms(1))
    then show "bindE (Inr a) (\<lambda>a.
            bindE (yearFrac (date_at (map Some ds) 0) (date_at (map Some ds) (0 + j)) basis)
              (\<lambda>yf. Inr (a + x / Math_pow (Fin 1 + rate) yf)))
        = Inr (a + x / Math_pow (Fin 1 + rate)
                    (Fin (year_fraction (ds ! 0) (ds ! (0 + j)) basis)))"
      by (simp add: d0 yearFrac_valid_eq [OF assms(2)])
  qed
  with assms(1) show ?thesis
    by (simp add: xnpv_def reduce_def)
qed

lemma reduce_terms:
  "reduce (\<lambda>acc cf i. acc + h cf i) xs a = foldl (+) a (map (\<lambda>i. h (xs ! i) i) [0..<length xs])"
proof (induction xs rule: rev_induct)
  case Nil
  show ?case by simp
next
  case (snoc x xs)
  have eq: "map (\<lambda>i. h ((xs @ [x]) ! i) i) [0..<length xs] = map (\<lambda>i. h (xs ! i) i) [0..<length xs]"
    by (rule map_cong) (simp_all add: nth_append)
  show ?case
    by (simp add: reduce_snoc snoc.IH eq)
qed

lemma foldl_absorb:
  assumes "\<And>a x. P a \<Longrightarrow> P (a + x)"
  shows "P a \<Longrightarrow> P (foldl (+) a xs)"
  by (induction xs arbitrary: a) (simp_all add: assms)

lemma foldl_poison:
  assumes ab: "\<And>a x. P a \<Longrightarrow> P (a + x)" and hit: "\<And>a. P (a + t i)" and i: "i < n"
  shows "P (foldl (+) a (map t [0..<n]))"
proof -
  have "[0..<n] = [0..<i] @ i # [Suc i..<n]"
    using i by (metis upt_conv_Cons upt_add_eq_append le_add_diff_inverse less_imp_le zero_le)
  then have "foldl (+) a (map t [0..<n])
      = foldl (+) (foldl (+) a (map t [0..<i]) + t i) (map t [Suc i..<n])"
    by simp
  also have "P \<dots>"
    by (rule foldl_absorb [of P, OF ab hit])
  finally show ?thesis .
qed

lemma nonfinite_absorb: "\<not> Number_isFinite a \<Longrightarrow> \<not> Number_isFinite (a + x)"
  by (cases a; cases x) simp_all

lemma div_NaN: "x / NaN = NaN"
  by (cases x) simp_all

lemma plus_NaN: "a + NaN = NaN"
  by (cases a) simp_all

lemma xnpv_terms:
  assumes "length cashflows = length ds" and "basis \<in> {''ACT/365'', ''ACT/360'', ''30E/360''}"
  shows "xnpv rate cashflows (map Some ds) basis =
     Inr (foldl (+) (Fin 0)
            (map (\<lambda>i. cashflows ! i / Math_pow (Fin 1 + rate)
                         (Fin (year_fraction (ds ! 0) (ds ! i) basis)))
               [0..<length cashflows]))"
  unfolding xnpv_valid [OF assms]
  by (simp add: reduce_terms
      [of "\<lambda>cf i. cf / Math_pow (Fin 1 + rate) (Fin (year_fraction (ds ! 0) (ds ! i) basis))"])

lemma pow_infinite_rate:
  assumes "rate = PInf \<or> rate = NInf"
  shows "e < 0 \<Longrightarrow> Math_pow (Fin 1 + rate) (Fin e) = Fin 0"
    and "Math_pow (Fin 1 + rate) (Fin 0) = Fin 1"
    and "0 < e \<Longrightarrow> Math_pow (Fin 1 + rate) (Fin e) = PInf \<or> Math_pow (Fin 1 + rate) (Fin e) = NInf"
  using assms by (auto simp: Math_pow.simps)

text \<open>
  Claim C9, amended: \<open>xnpv\<close> performs no finiteness check on its rate: for every rate,
  finite or not, it never fails with \<open>InvalidRate\<close>, where \<open>npv\<close> fails with it on
  every rate that is not finite. With valid dates, cashflow and date
  lists of equal length and one of the three day-count bases it returns a number, and
  that number is
  \<^item> \<open>NaN\<close> when the rate is \<open>NaN\<close> and some date has a year fraction other than 0 from
    the first date;
  \<^item> not finite when the rate is infinite and some finite flow other than 0 is dated
    before the first date;
  \<^item> the sum of the flows dated at year fraction 0 (every other flow adds 0) when the
    rate is infinite, the flows are finite and no date precedes the first.
\<close>

theorem xnpv_no_rate_check:
  "xnpv rate cashflows dates basis \<noteq> Inl InvalidRate \<and>
   (\<not> Number_isFinite rate \<longrightarrow> npv rate cashflows = Inl InvalidRate) \<and>
   (length cashflows = length ds \<and> basis \<in> {''ACT/365'', ''ACT/360'', ''30E/360''} \<longrightarrow>
      (\<exists>v. xnpv rate cashflows (map Some ds) basis = Inr v) \<and>
      (i < length ds \<and> year_fraction (ds ! 0) (ds ! i) basis \<noteq> 0 \<longrightarrow>
         xnpv NaN cashflows (map Some ds) basis = Inr NaN) \<and>
      ((rate = PInf \<or> rate = NInf) \<and> i < length ds \<and>
       year_fraction (ds ! 0) (ds ! i) basis < 0 \<and> cashflows ! i = Fin c \<and> c \<noteq> 0 \<longrightarrow>
         (\<exists>v. xnpv rate cashflows (map Some ds) basis = Inr v \<and> \<not> Number_isFinite v)) \<and>
      ((rate = PInf \<or> rate = NInf) \<and> cashflows = map Fin cs \<and>
       (\<forall>j<length ds. 0 \<le> year_fraction (ds ! 0) (ds ! j) basis) \<longrightarrow>
         xnpv rate cashflows (map Some ds) basis =
           Inr (foldl (+) (Fin 0)
                  (map (\<lambda>j. if year_fraction (ds ! 0) (ds ! j) basis = 0 then Fin (cs ! j)
                             else Fin 0)
                     [0..<length cs]))))"
proof -
  have never: "xnpv rate cashflows dates basis \<noteq> Inl InvalidRate"
    using xnpv_errors [of rate cashflows dates basis InvalidRate] by auto
  have guard: "\<not> Number_isFinite rate \<longrightarrow> npv rate cashflows = Inl InvalidRate"
    by (simp add: npv_def)
  have rest: ?thesis if len: "length cashflows = length ds"
    and basis: "basis \<in> {''ACT/365'', ''ACT/360'', ''30E/360''}"
  proof -
    note terms = xnpv_terms [OF len basis]
    let ?yf = "\<lambda>j. year_fraction (ds ! 0) (ds ! j) basis"
    have a: "\<exists>v. xnpv rate cashflows (map Some ds) basis = Inr v"
      by (simp add: terms)
    have b: "xnpv NaN cashflows (map Some ds) basis = Inr NaN"
      if "i < length ds" "?yf i \<noteq> 0"
    proof -
      have t: "cashflows ! i / Math_pow (Fin 1 + NaN) (Fin (?yf i)) = NaN"
        using that(2) by (simp add: Math_pow.simps div_NaN)
      have "foldl (+) (Fin 0)
            (map (\<lambda>i. cashflows ! i / Math_pow (Fin 1 + NaN) (Fin (?yf i)))
               [0..<length cashflows]) = NaN"
        by (rule foldl_poison [where P = "\<lambda>v. v = NaN" and i = i])
          (use that(1) len t in \<open>simp_all add: plus_NaN\<close>)
      then show ?thesis
        by (simp add: terms)
    qed
    have c: "\<exists>v. xnpv rate cashflows (map Some ds) basis = Inr v \<and> \<not> Number_isFinite v"
      if "rate = PInf \<or> rate = NInf" "i < length ds" "?yf i < 0" "cashflows ! i = Fin c" "c \<noteq> 0"
    proof -
      have t: "cashflows ! i / Math_pow (Fin 1 + rate) (Fin (?yf i)) = inf_of_sign c"
        using pow_infinite_rate(1) [OF that(1,3)] that(4) by simp
      have hit: "\<not> Number_isFinite (a + inf_of_sign c)" for a
        using that(5) by (cases a) (simp_all add: inf_of_sign_def)
      have "\<not> Number_isFinite (foldl (+) (Fin 0)
            (map (\<lambda>i. cashflows ! i / Math_pow (Fin 1 + rate) (Fin (?yf i)))
               [0..<length cashflows]))"
        by (rule foldl_poison [where P = "\<lambda>v. \<not> Number_isFinite v" and i = i])
          (use that(2) len t hit nonfinite_absorb in simp_all)
      then show ?thesis
        by (simp add: terms)
    qed
    have d: "xnpv rate cashflows (map Some ds) basis =
           Inr (foldl (+) (Fin 0)
                  (map (\<lambda>j. if ?yf j = 0 then Fin (cs ! j) else Fin 0) [0..<length cs]))"
      if inf: "rate = PInf \<or> rate = NInf" and cs: "cashflows = map Fin cs"
        and chron: "\<forall>j<length ds. 0 \<le> ?yf j"
    proof -
      have "map (\<lambda>i. cashflows ! i / Math_pow (Fin 1 + rate) (Fin (?yf i))) [0..<length cashflows]
          = map (\<lambda>j. if ?yf j = 0 then Fin (cs ! j) else Fin 0) [0..<length cs]"
        unfolding cs length_map
      proof (rule map_cong [OF refl])
        fix j
        assume "j \<in> set [0..<length cs]"
        then have j: "j < length cs" by simp
        with len cs chron have nn: "0 \<le> ?yf j" by simp
        show "map Fin cs ! j / Math_pow (Fin 1 + rate) (Fin (?yf j))
            = (if ?yf j = 0 then Fin (cs ! j) else Fin 0)"
        proof (cases "?yf j = 0")
          case True
          then show ?thesis
            using j pow_infinite_rate(2) [OF inf] by simp
        next
          case False
          with nn have "0 < ?yf j" by simp
          from pow_infinite_rate(3) [OF inf this] False j show ?thesis
            by auto
        qed
      qed
      then show ?thesis
        by (simp add: terms)
    qed
    from never guard a b c d show ?thesis
      by blast
  qed
  from never guard rest show ?thesis
    by blast
qed

theorem xnpv_no_rate_check_witness:
  "length [Fin 5, Fin 7] = length [0, 86400000 :: int] \<and>
   year_fraction 0 86400000 ''ACT/365'' \<noteq> 0 \<and>
   npv NaN [Fin 5, Fin 7] = Inl InvalidRate \<and>
   xnpv NaN [Fin 5, Fin 7] (map Some [0, 86400000]) ''ACT/365'' = Inr NaN \<and>
   xnpv PInf (map Fin [5, 7]) (map Some [0, 86400000]) ''ACT/365'' = Inr (Fin 5) \<and>
   year_fraction 86400000 0 ''ACT/365'' < 0 \<and>
   (\<exists>v. xnpv PInf (map Fin [5, 7]) (map Some [86400000, 0]) ''ACT/365'' = Inr v \<and>
        \<not> Number_isFinite v)"
proof -
  have yf: "year_fraction 0 86400000 ''ACT/365'' = 1 / 365"
    "year_fraction 86400000 0 ''ACT/365'' = - 1 / 365"
    "year_fraction 0 0 ''ACT/365'' = 0" "year_fraction 86400000 86400000 ''ACT/365'' = 0"
    by (simp_all add: year_fraction_def)
  have up: "[0..<2] = [0, Suc 0]"
    by (simp add: upt_rec)
  show ?thesis
    using xnpv_no_rate_check
        [of NaN "[Fin 5, Fin 7]" "map Some [0, 86400000]" "''ACT/365''" "[0, 86400000]" 1 5
           "[5, 7]"]
      xnpv_no_rate_check
        [of PInf "map Fin [5, 7]" "map Some [0, 86400000]" "''ACT/365''" "[0, 86400000]" 1 5
           "[5, 7]"]
      xnpv_no_rate_check
        [of PInf "map Fin [5, 7]" "map Some [86400000, 0]" "''ACT/365''" "[86400000, 0]" 1 7
           "[5, 7]"]
    by (simp add: yf up less_Suc_eq)
qed

section \<open>Rates of return of one-signed series\<close>

text \<open>
  Claim C1, as stated: \<open>irr\<close> and \<open>xirr\<close> fail with \<open>RootNotBracketed\<close> on every series
  whose entries are all strictly positive. On the series of the single flow \<open>1e-11\<close> the
  payoff is below the tolerance at the default guess, and the Newton phase returns the
  guess at once.
\<close>

theorem irr_tiny_positive_returns_guess:
  "irr [Fin (1 / 10 ^ 11)] default_guess = Inr (Fin 0.1) \<and>
   xirr [Fin (1 / 10 ^ 11)] [Some 0] default_guess ''ACT/365'' = Inr (Fin 0.1)"
proof -
  have n50: "(50::nat) = Suc 49" by simp
  have f: "irr_f [Fin (1 / 10 ^ 11)] (Fin 0.1) = Fin (1 / 10 ^ 11)"
    by (simp add: irr_f_def reduce_def idx_def Math_pow.simps)
  have a: "irr [Fin (1 / 10 ^ 11)] default_guess = Inr (Fin 0.1)"
    unfolding irr_def default_guess_def Let_def n50 irr_newton.simps f by simp
  have yf: "yearFrac (Some 0) (Some 0) ''ACT/365'' = Inr (Fin 0)"
    by (simp add: yearFrac_def new_Date_def minus_jsnum_def)
  have x: "xnpv r [Fin (1 / 10 ^ 11)] [Some 0] ''ACT/365'' = Inr (Fin (1 / 10 ^ 11))" for r
    by (simp add: xnpv_def reduce_def date_at_def yf Math_pow.simps)
  have b: "xirr [Fin (1 / 10 ^ 11)] [Some 0] default_guess ''ACT/365'' = Inr (Fin 0.1)"
    unfolding xirr_def default_guess_def Let_def n50 xirr_newton.simps x xirr_df_def
    by simp
  from a b show ?thesis by simp
qed

lemma real_pow_pos: "0 < x \<Longrightarrow> 0 < real_pow x e"
  by (simp add: real_pow_def)

lemma Math_pow_pos: "0 < x \<Longrightarrow> \<exists>p>0. Math_pow (Fin x) (Fin e) = Fin p"
  by (simp add: Math_pow.simps real_pow_pos)

lemma Math_pow_zero_exp: "Math_pow b (Fin 0) = Fin 1"
  by (simp add: Math_pow.simps)

lemma irr_f_real:
  "1 + x \<noteq> 0 \<Longrightarrow> irr_f (map Fin cs) (Fin x) = Fin (\<Sum>t<length cs. cs ! t / (1 + x) ^ t)"
  using reduce_real_sum [of "1 + x" cs] by (simp add: irr_f_def)

lemma signed_sum_lower:
  assumes "cs \<noteq> []" and "\<forall>c\<in>set cs. 0 < s * c" and "0 < (b::real)"
  shows "s * hd cs \<le> s * (\<Sum>t<length cs. cs ! t / b ^ t)"
proof -
  have nn: "0 \<le> s * (cs ! t) / b ^ t" if "t < length cs" for t
    using assms(2,3) that by (simp add: less_imp_le)
  have "s * (\<Sum>t<length cs. cs ! t / b ^ t) = (\<Sum>t<length cs. s * (cs ! t) / b ^ t)"
    by (simp add: sum_distrib_left)
  moreover have "s * (cs ! 0) / b ^ 0 \<le> (\<Sum>t<length cs. s * (cs ! t) / b ^ t)"
    using assms(1) nn by (intro member_le_sum) auto
  ultimately show ?thesis
    using assms(1) by (simp add: hd_conv_nth)
qed

lemma irr_f_signed:
  assumes "cs \<noteq> []" and "\<forall>c\<in>set cs. 0 < s * c" and "tol \<le> s * hd cs" and "- 1 < x"
  shows "\<exists>v. irr_f (map Fin cs) (Fin x) = Fin v \<and> tol \<le> s * v"
proof -
  have "0 < 1 + x" using assms(4) by simp
  with signed_sum_lower [OF assms(1,2), of "1 + x"] assms(3) irr_f_real [of x cs]
  show ?thesis by auto
qed

lemma irr_newton_none:
  assumes f: "\<And>x. - 1 < x \<Longrightarrow> \<exists>v. f (Fin x) = Fin v \<and> 1 / 10 ^ 10 \<le> s * v"
    and s: "s = 1 \<or> s = - 1"
  shows "- 0.999999 < g \<Longrightarrow> irr_newton f df n (Fin g) = None"
proof (induction n arbitrary: g)
  case 0
  show ?case by simp
next
  case (Suc n)
  from Suc.prems have "- 1 < g" by simp
  from f [OF this] obtain v where v: "f (Fin g) = Fin v" "1 / 10 ^ 10 \<le> s * v"
    by blast
  from v(2) s have av: "\<not> \<bar>v\<bar> < 1 / 10 ^ 10" by auto
  show ?case
  proof (cases "Fin g - Fin v / df (Fin g)")
    case (Fin g')
    then show ?thesis
      using v(1) av Suc.IH [of g'] by (simp add: Let_def)
  qed (use v(1) av in \<open>simp_all add: Let_def\<close>)
qed

lemma irr_one_signed:
  assumes "cs \<noteq> []" and "\<forall>c\<in>set cs. 0 < s * c" and "1 / 10 ^ 10 \<le> s * hd cs"
    and s: "s = 1 \<or> s = - 1" and g: "- 0.999999 < g"
  shows "irr (map Fin cs) (Fin g) = Inl RootNotBracketed"
proof -
  have f: "\<exists>v. irr_f (map Fin cs) (Fin x) = Fin v \<and> 1 / 10 ^ 10 \<le> s * v" if "- 1 < x" for x
    using irr_f_signed [OF assms(1,2,3) that] .
  have newton: "irr_newton (irr_f (map Fin cs)) (irr_df (map Fin cs)) 50 (Fin g) = None"
    by (rule irr_newton_none [where f = "irr_f (map Fin cs)" and s = s, OF f s g])
  obtain a where a: "irr_f (map Fin cs) (Fin (- 0.9)) = Fin a" "1 / 10 ^ 10 \<le> s * a"
    using f [of "- 0.9"] by auto
  obtain b where b: "irr_f (map Fin cs) (Fin 10) = Fin b" "1 / 10 ^ 10 \<le> s * b"
    using f [of 10] by auto
  have tol: "(0::real) < 1 / 10 ^ 10" by simp
  have "0 < s * a" "0 < s * b"
    using a(2) b(2) tol by linarith+
  then have "0 < (s * a) * (s * b)"
    by (rule mult_pos_pos)
  with s have "0 < a * b" by auto
  then show ?thesis
    using a(1) b(1) by (simp add: irr_def newton)
qed

lemma isFinite_iff: "Number_isFinite v \<longleftrightarrow> (\<exists>e. v = Fin e)"
  by (cases v) simp_all

lemma yearFrac_finite:
  assumes "basis \<in> {''ACT/365'', ''ACT/360'', ''30E/360''}"
  shows "\<exists>e. yearFrac (Some a) (Some b) basis = Inr (Fin e)"
proof -
  obtain y0 m0 d0 where c0: "civil_from_days (a div 86400000) = (y0, m0, d0)"
    by (cases "civil_from_days (a div 86400000)") auto
  obtain y1 m1 d1 where c1: "civil_from_days (b div 86400000) = (y1, m1, d1)"
    by (cases "civil_from_days (b div 86400000)") auto
  have "\<exists>v. yearFrac (Some a) (Some b) ''30E/360'' = Inr v \<and> Number_isFinite v"
    by (simp add: yearFrac_def new_Date_def minus_jsnum_def getUTCFullYear_def
        getUTCMonth_def getUTCDate_def date_field_def c0 c1)
  moreover have "\<exists>v. yearFrac (Some a) (Some b) ''ACT/365'' = Inr v \<and> Number_isFinite v"
    by (simp add: yearFrac_def new_Date_def minus_jsnum_def)
  moreover have "\<exists>v. yearFrac (Some a) (Some b) ''ACT/360'' = Inr v \<and> Number_isFinite v"
    by (simp add: yearFrac_def new_Date_def minus_jsnum_def)
  ultimately have "\<exists>v. yearFrac (Some a) (Some b) basis = Inr v \<and> Number_isFinite v"
    using assms by auto
  then show ?thesis
    by (auto simp: isFinite_iff)
qed

lemma yearFrac_same:
  assumes "basis \<in> {''ACT/365'', ''ACT/360'', ''30E/360''}"
  shows "yearFrac (Some a) (Some a) basis = Inr (Fin 0)"
proof -
  obtain y0 m0 d0 where c0: "civil_from_days (a div 86400000) = (y0, m0, d0)"
    by (cases "civil_from_days (a div 86400000)") auto
  have "yearFrac (Some a) (Some a) ''30E/360'' = Inr (Fin 0)"
    by (simp add: yearFrac_def new_Date_def minus_jsnum_def getUTCFullYear_def
        getUTCMonth_def getUTCDate_def date_field_def c0)
  moreover have "yearFrac (Some a) (Some a) ''ACT/365'' = Inr (Fin 0)"
    by (simp add: yearFrac_def new_Date_def minus_jsnum_def)
  moreover have "yearFrac (Some a) (Some a) ''ACT/360'' = Inr (Fin 0)"
    by (simp add: yearFrac_def new_Date_def minus_jsnum_def)
  ultimately show ?thesis
    using assms by auto
qed

lemma date_at_valid: "i < length ds \<Longrightarrow> date_at (map Some ds) i = Some (ds ! i)"
  by (simp add: date_at_def)

lemma xnpv_reduce_signed:
  assumes b: "0 < b" and basis: "basis \<in> {''ACT/365'', ''ACT/360'', ''30E/360''}"
  shows "\<forall>c\<in>set cs. 0 < s * c \<Longrightarrow> i + length cs \<le> length ds \<Longrightarrow>
    \<exists>v. reduce_from (\<lambda>acc cf i. bindE acc (\<lambda>a.
            bindE (yearFrac (Some a0) (date_at (map Some ds) i) basis) (\<lambda>yf.
            Inr (a + cf / Math_pow (Fin b) yf)))) i (map Fin cs) (Inr (Fin a))
         = Inr (Fin v) \<and> s * a \<le> s * v"
proof (induction cs arbitrary: i a)
  case Nil
  show ?case by simp
next
  case (Cons c cs)
  from Cons.prems(2) have d: "date_at (map Some ds) i = Some (ds ! i)"
    by (intro date_at_valid) simp
  from yearFrac_finite [OF basis] obtain e
    where e: "yearFrac (Some a0) (Some (ds ! i)) basis = Inr (Fin e)"
    by blast
  from Math_pow_pos [OF b] obtain p where p: "0 < p" "Math_pow (Fin b) (Fin e) = Fin p"
    by blast
  from Cons.prems(1) have "0 < s * c" by simp
  with p(1) have "0 < s * c / p" by simp
  then have up: "s * a \<le> s * (a + c / p)"
    by (simp add: distrib_left)
  from Cons.prems have "\<forall>c\<in>set cs. 0 < s * c" "Suc i + length cs \<le> length ds"
    by simp_all
  from Cons.IH [OF this, of "a + c / p"] obtain v
    where v: "reduce_from (\<lambda>acc cf i. bindE acc (\<lambda>a.
            bindE (yearFrac (Some a0) (date_at (map Some ds) i) basis) (\<lambda>yf.
            Inr (a + cf / Math_pow (Fin b) yf)))) (Suc i) (map Fin cs) (Inr (Fin (a + c / p)))
         = Inr (Fin v)" "s * (a + c / p) \<le> s * v"
    by blast
  from p(1) have "p \<noteq> 0" by simp
  then show ?case
    using v up by (simp add: d e p(2))
qed

lemma xnpv_signed:
  assumes "cs \<noteq> []" and "\<forall>c\<in>set cs. 0 < s * c" and "tol \<le> s * hd cs"
    and "length ds = length cs" and "basis \<in> {''ACT/365'', ''ACT/360'', ''30E/360''}"
    and "- 1 < x"
  shows "\<exists>v. xnpv (Fin x) (map Fin cs) (map Some ds) basis = Inr (Fin v) \<and> tol \<le> s * v"
proof -
  from assms(1,4) obtain c0 rest d0 drest where cs: "cs = c0 # rest" and ds: "ds = d0 # drest"
    by (cases cs; cases ds) auto
  have b: "0 < 1 + x" using assms(6) by simp
  have e0: "yearFrac (Some d0) (Some d0) basis = Inr (Fin 0)"
    by (rule yearFrac_same [OF assms(5)])
  have rest: "\<forall>c\<in>set rest. 0 < s * c" "Suc 0 + length rest \<le> length ds"
    using assms(2,4) cs by simp_all
  from xnpv_reduce_signed [OF b assms(5) rest, of d0 c0] obtain v
    where v: "reduce_from (\<lambda>acc cf i. bindE acc (\<lambda>a.
            bindE (yearFrac (Some d0) (date_at (map Some ds) i) basis) (\<lambda>yf.
            Inr (a + cf / Math_pow (Fin (1 + x)) yf)))) (Suc 0) (map Fin rest) (Inr (Fin c0))
         = Inr (Fin v)" "s * c0 \<le> s * v"
    by blast
  have d0: "date_at (map Some ds) 0 = Some d0"
    by (simp add: ds date_at_def)
  have "xnpv (Fin x) (map Fin cs) (map Some ds) basis = Inr (Fin v)"
    using v(1) assms(4) by (simp add: xnpv_def reduce_def cs d0 e0 Math_pow_zero_exp)
  with v(2) assms(3) show ?thesis
    by (simp add: cs)
qed

lemma xirr_newton_none:
  assumes f: "\<And>x. - 1 < x \<Longrightarrow> \<exists>v. f (Fin x) = Inr (Fin v) \<and> 1 / 10 ^ 8 \<le> s * v"
    and s: "s = 1 \<or> s = - 1"
  shows "- 0.999999 < g \<Longrightarrow> xirr_newton f (xirr_df f) n (Fin g) = Inr None"
proof (induction n arbitrary: g)
  case 0
  show ?case by simp
next
  case (Suc n)
  from Suc.prems have "- 1 < g" "- 1 < g + 1 / 10 ^ 6" "- 1 < g - 1 / 10 ^ 6"
    by simp_all
  with f obtain v vp vm where v: "f (Fin g) = Inr (Fin v)" "1 / 10 ^ 8 \<le> s * v"
    and vp: "f (Fin (g + 1 / 10 ^ 6)) = Inr (Fin vp)"
    and vm: "f (Fin (g - 1 / 10 ^ 6)) = Inr (Fin vm)"
    by meson
  from v(2) s have av: "\<not> \<bar>v\<bar> < 1 / 10 ^ 8" by auto
  have df: "xirr_df f (Fin g) = Inr (Fin ((vp - vm) / (2 / 10 ^ 6)))"
    using vp vm by (simp add: xirr_df_def minus_jsnum_def)
  show ?case
  proof (cases "Fin g - Fin v / Fin ((vp - vm) / (2 / 10 ^ 6))")
    case (Fin g')
    then show ?thesis
      using v(1) av df Suc.IH [of g'] by (simp add: Let_def)
  qed (use v(1) av df in \<open>simp_all add: Let_def\<close>)
qed

lemma xirr_one_signed:
  assumes "cs \<noteq> []" and "\<forall>c\<in>set cs. 0 < s * c" and "1 / 10 ^ 8 \<le> s * hd cs"
    and "length ds = length cs" and "basis \<in> {''ACT/365'', ''ACT/360'', ''30E/360''}"
    and s: "s = 1 \<or> s = - 1" and g: "- 0.999999 < g"
  shows "xirr (map Fin cs) (map Some ds) (Fin g) basis = Inl RootNotBracketed"
proof -
  define f where "f = (\<lambda>r. xnpv r (map Fin cs) (map Some ds) basis)"
  have f: "\<exists>v. f (Fin x) = Inr (Fin v) \<and> 1 / 10 ^ 8 \<le> s * v" if "- 1 < x" for x
    unfolding f_def using xnpv_signed [OF assms(1,2,3,4,5) that] .
  have newton: "xirr_newton f (xirr_df f) 50 (Fin g) = Inr None"
    by (rule xirr_newton_none [where f = f and s = s, OF f s g])
  obtain a where a: "f (Fin (- 0.9)) = Inr (Fin a)" "1 / 10 ^ 8 \<le> s * a"
    using f [of "- 0.9"] by auto
  obtain b where b: "f (Fin 10) = Inr (Fin b)" "1 / 10 ^ 8 \<le> s * b"
    using f [of 10] by auto
  have tol: "(0::real) < 1 / 10 ^ 8" by simp
  have "0 < s * a" "0 < s * b"
    using a(2) b(2) tol by linarith+
  then have "0 < (s * a) * (s * b)"
    by (rule mult_pos_pos)
  with s have "0 < a * b" by auto
  then show ?thesis
    using a(1) b(1) by (simp add: xirr_def f_def [symmetric] newton)
qed

text \<open>
  Claim C1, amended: for every non-empty cashflow series whose entries are all strictly
  positive or all strictly negative, and every guess above the rate floor \<open>-0.999999\<close>
  (the default 0.1 is one): \<open>irr\<close> fails with \<open>RootNotBracketed\<close> when
  \<open>|c[0]| \<ge> 1e-10\<close>, and \<open>xirr\<close>, with valid dates of matching length and one of the
  three bases, fails with \<open>RootNotBracketed\<close> when \<open>|c[0]| \<ge> 1e-8\<close>. The payoff then
  stays at least the tolerance away from 0 on all rates above \<open>-1\<close>, so the Newton
  phase never returns and both bracket ends have the same sign.
\<close>

theorem one_signed_series_not_bracketed:
  assumes "cs \<noteq> []"
    and "(\<forall>c\<in>set cs. 0 < c) \<or> (\<forall>c\<in>set cs. c < 0)"
    and "- 0.999999 < g"
  shows "(1 / 10 ^ 10 \<le> \<bar>hd cs\<bar> \<longrightarrow> irr (map Fin cs) (Fin g) = Inl RootNotBracketed) \<and>
         (1 / 10 ^ 8 \<le> \<bar>hd cs\<bar> \<and> length ds = length cs \<and>
          basis \<in> {''ACT/365'', ''ACT/360'', ''30E/360''}
            \<longrightarrow> xirr (map Fin cs) (map Some ds) (Fin g) basis = Inl RootNotBracketed)"
proof -
  from assms(1) have hd: "hd cs \<in> set cs" by simp
  have "\<exists>s::real. (s = 1 \<or> s = - 1) \<and> (\<forall>c\<in>set cs. 0 < s * c) \<and> s * hd cs = \<bar>hd cs\<bar>"
  proof (cases "\<forall>c\<in>set cs. 0 < c")
    case True
    with hd have "0 < hd cs" by blast
    with True show ?thesis by (intro exI [of _ 1]) simp
  next
    case False
    with assms(2) have neg: "\<forall>c\<in>set cs. c < 0" by blast
    with hd have "hd cs < 0" by blast
    with neg show ?thesis by (intro exI [of _ "- 1"]) simp
  qed
  then obtain s :: real
    where s: "s = 1 \<or> s = - 1" and sgn: "\<forall>c\<in>set cs. 0 < s * c" and ab: "s * hd cs = \<bar>hd cs\<bar>"
    by blast
  show ?thesis
    using irr_one_signed [OF assms(1) sgn _ s assms(3)]
      xirr_one_signed [OF assms(1) sgn _ _ _ s assms(3), of ds basis]
    by (simp add: ab)
qed

theorem one_signed_series_not_bracketed_witness:
  "[1, 2 :: real] \<noteq> [] \<and> - 0.999999 < (0.1 :: real) \<and> 1 / 10 ^ 8 \<le> \<bar>hd [1, 2 :: real]\<bar> \<and>
   length [0, 31536000000 :: int] = length [1, 2 :: real] \<and>
   irr (map Fin [1, 2]) default_guess = Inl RootNotBracketed \<and>
   xirr (map Fin [1, 2]) (map Some [0, 31536000000]) default_guess ''ACT/365''
     = Inl RootNotBracketed"
  using one_signed_series_not_bracketed [of "[1, 2]" "0.1" "[0, 31536000000]" "''ACT/365''"]
  by (simp add: default_guess_def)

section \<open>Counted loops that return\<close>

text \<open>A loop whose bound is an integer below \<open>2^53\<close> returns: it is a fold.\<close>

lemma for_loop_fold:
  assumes "m < 2 ^ 53"
  shows "t \<le> m + 1 \<Longrightarrow> for_loop body (Fin (of_int m)) t acc = Some (fold body [t..m] acc)"
proof (induction "nat (m + 1 - t)" arbitrary: t acc)
  case 0
  then have "t = m + 1" by simp
  then show ?case
    by (subst for_loop.simps) simp
next
  case (Suc k)
  then have t: "t \<le> m" "t < 2 ^ 53"
    using assms by simp_all
  have "for_loop body (Fin (of_int m)) (t + 1) (body t acc)
      = Some (fold body [t + 1..m] (body t acc))"
    by (rule Suc.hyps(1)) (use Suc.hyps(2) t in simp_all)
  moreover have "[t..m] = t # [t + 1..m]"
    using t(1) by (simp add: upto_rec1)
  ultimately show ?case
    using t by (subst for_loop.simps) (simp add: incr_def)
qed

section \<open>Macaulay duration\<close>

text \<open>
  With a zero coupon every round of the loop but the last leaves both sums at 0, and the
  last one stores the discounted face value and its weighted value, each rounded once.
\<close>

lemma rnd_absorb:
  assumes "\<forall>x v. fl x = Fin v \<longrightarrow> fl v = Fin v"
  shows "fl_add fl (Fin 0) (rnd fl v) = rnd fl v"
proof (cases v)
  case (Fin x)
  show ?thesis
  proof (cases "fl x")
    case (Fin w)
    with assms [rule_format, OF this] \<open>v = Fin x\<close> show ?thesis
      by (simp add: fl_add_def rnd_def)
  qed (simp_all add: fl_add_def rnd_def \<open>v = Fin x\<close>)
qed (simp_all add: fl_add_def rnd_def)

lemma duration_step_zero:
  assumes fl0: "fl 0 = Fin 0" and "freq \<noteq> 0" and "b \<noteq> 0" and "fl (1 + yv) = Fin b"
    and "t < m" and "t \<noteq> 0" and "d \<noteq> 0" and "pw b (of_int t) = Fin d"
    and "Number_isFinite (fl (of_int t / freq))"
  shows "duration_step fl pw (Fin 0) (Fin face) (Fin (of_int m)) (Fin yv) (Fin freq) t
           (Fin 0, Fin 0) = (Fin 0, Fin 0)"
proof -
  from assms(9) obtain k where k: "fl (of_int t / freq) = Fin k"
    by (cases "fl (of_int t / freq)") simp_all
  show ?thesis
    using assms(1-8) k
    by (simp add: Let_def fl_add_def fl_div_def fl_mul_def rnd_def Math_pow_d_def is_int_def)
qed

lemma duration_prefix_zero:
  assumes "fl 0 = Fin 0" and "freq \<noteq> 0" and "b \<noteq> 0" and "fl (1 + yv) = Fin b"
    and "\<forall>t\<in>{1..m}. \<exists>d. d \<noteq> 0 \<and> pw b (of_int t) = Fin d"
    and "\<forall>t\<in>{1..m}. Number_isFinite (fl (of_int t / freq))"
  shows "0 \<le> j \<Longrightarrow> j < m \<Longrightarrow>
    fold (duration_step fl pw (Fin 0) (Fin face) (Fin (of_int m)) (Fin yv) (Fin freq)) [1..j]
      (Fin 0, Fin 0) = (Fin 0, Fin 0)"
proof (induction j rule: int_ge_induct)
  case base
  show ?case by simp
next
  case (step i)
  have mem: "i + 1 \<in> {1..m}"
    using step.hyps step.prems by simp
  from assms(5) mem obtain d where d: "d \<noteq> 0" "pw b (of_int (i + 1)) = Fin d"
    by blast
  from assms(6) mem have fin: "Number_isFinite (fl (of_int (i + 1) / freq))"
    by blast
  have ne: "i + 1 \<noteq> 0"
    using step.hyps by simp
  have "[1..i + 1] = [1..i] @ [i + 1]"
    using step.hyps by (simp add: upto_rec2)
  moreover have "duration_step fl pw (Fin 0) (Fin face) (Fin (of_int m)) (Fin yv) (Fin freq)
      (i + 1) (Fin 0, Fin 0) = (Fin 0, Fin 0)"
    by (rule duration_step_zero [where fl = fl and pw = pw and d = d and b = b,
          OF assms(1-4) step.prems ne d fin])
  ultimately show ?case
    using step by simp
qed

lemma three_roundings:
  fixes x k s r u :: real
  assumes "\<bar>k - x\<bar> \<le> u * \<bar>x\<bar>" and "\<bar>s - k\<bar> \<le> u * \<bar>k\<bar>" and "\<bar>r - s\<bar> \<le> u * \<bar>s\<bar>"
    and "x \<noteq> 0"
  shows "\<bar>r - x\<bar> \<le> ((1 + u) ^ 3 - 1) * \<bar>x\<bar>"
proof -
  have u: "0 \<le> u"
  proof (rule ccontr)
    assume "\<not> 0 \<le> u"
    with assms(4) have "u * \<bar>x\<bar> < 0"
      by (simp add: mult_less_0_iff)
    with assms(1) show False by simp
  qed
  have k: "\<bar>k\<bar> \<le> (1 + u) * \<bar>x\<bar>"
    using assms(1) by (simp add: algebra_simps)
  have "\<bar>s\<bar> \<le> (1 + u) * \<bar>k\<bar>"
    using assms(2) by (simp add: algebra_simps)
  also have "\<dots> \<le> (1 + u) * ((1 + u) * \<bar>x\<bar>)"
    using k u by (intro mult_left_mono) simp_all
  finally have s: "\<bar>s\<bar> \<le> (1 + u) * ((1 + u) * \<bar>x\<bar>)" .
  have "\<bar>r - x\<bar> \<le> \<bar>r - s\<bar> + \<bar>s - k\<bar> + \<bar>k - x\<bar>"
    by linarith
  also have "\<dots> \<le> u * \<bar>s\<bar> + u * \<bar>k\<bar> + u * \<bar>x\<bar>"
    using assms(1-3) by linarith
  also have "\<dots> \<le> u * ((1 + u) * ((1 + u) * \<bar>x\<bar>)) + u * ((1 + u) * \<bar>x\<bar>) + u * \<bar>x\<bar>"
    using mult_left_mono [OF s u] mult_left_mono [OF k u] by linarith
  also have "\<dots> = ((1 + u) ^ 3 - 1) * \<bar>x\<bar>"
    by (simp add: power3_eq_cube algebra_simps)
  finally show ?thesis .
qed

lemma duration_zero_coupon_value:
  fixes fl :: "real \<Rightarrow> jsnum" and pw :: "real \<Rightarrow> real \<Rightarrow> jsnum"
    and face yieldRate years freq prod yv b :: real
  defines "m \<equiv> Math_round prod"
  defines "pv \<equiv> fl_div fl (Fin face) (pw b (of_int m))"
  assumes "fl 0 = Fin 0" and "\<forall>x v. fl x = Fin v \<longrightarrow> fl v = Fin v"
    and "fl face = Fin face" and "freq \<noteq> 0"
    and "fl (years * freq) = Fin prod" and "1 \<le> m" and "m < 2 ^ 53"
    and "fl (yieldRate / freq) = Fin yv" and "fl (1 + yv) = Fin b" and "b \<noteq> 0"
    and "\<forall>t\<in>{1..m}. \<exists>d. d \<noteq> 0 \<and> pw b (of_int t) = Fin d"
    and "\<forall>t\<in>{1..m}. Number_isFinite (fl (of_int t / freq))"
  shows "macaulayDuration fl pw (Fin face) (Fin 0) (Fin yieldRate) years freq
           = Some (fl_div fl (fl_mul fl (fl (of_int m / freq)) pv) pv)"
proof -
  let ?step = "duration_step fl pw (Fin 0) (Fin face) (Fin (of_int m)) (Fin yv) (Fin freq)"
  have c: "fl_div fl (fl_mul fl (Fin 0) (Fin face)) (Fin freq) = Fin 0"
    using assms(3,6) by (simp add: fl_div_def fl_mul_def rnd_def)
  have y: "fl_div fl (Fin yieldRate) (Fin freq) = Fin yv"
    using assms(6,10) by (simp add: fl_div_def rnd_def)
  have mj: "Math_round_js (fl (years * freq)) = Fin (of_int m)"
    by (simp add: assms(7) Math_round_js_def m_def)
  have unf: "macaulayDuration fl pw (Fin face) (Fin 0) (Fin yieldRate) years freq =
      (case for_loop ?step (Fin (of_int m)) 1 (Fin 0, Fin 0) of
         None \<Rightarrow> None
       | Some (pvTotal, tWeighted) \<Rightarrow> Some (fl_div fl tWeighted pvTotal))"
    unfolding macaulayDuration_def Let_def c y mj ..
  have loop: "for_loop ?step (Fin (of_int m)) 1 (Fin 0, Fin 0)
      = Some (fold ?step [1..m] (Fin 0, Fin 0))"
    using assms(8) by (intro for_loop_fold assms(9)) simp
  have split: "[1..m] = [1..m - 1] @ [m]"
    using assms(8) upto_rec2 [of 1 m] by simp
  have prefix: "fold ?step [1..m - 1] (Fin 0, Fin 0) = (Fin 0, Fin 0)"
    using assms(8)
    by (intro duration_prefix_zero [where fl = fl and pw = pw and b = b and m = m]
        assms(3,6,12,11,13,14)) simp_all
  have "m \<in> {1..m}"
    using assms(8) by simp
  with assms(13) obtain d where d: "d \<noteq> 0" "pw b (of_int m) = Fin d"
    by blast
  have cf: "fl_add fl (Fin 0) (Fin face) = Fin face"
    using assms(5) by (simp add: fl_add_def rnd_def)
  have disc: "Math_pow_d pw (fl_add fl (Fin 1) (Fin yv)) (Fin (of_int m)) = pw b (of_int m)"
    using assms(8,11,12) by (simp add: fl_add_def rnd_def Math_pow_d_def is_int_def)
  have tm: "fl_div fl (Fin (of_int m)) (Fin freq) = fl (of_int m / freq)"
    using assms(6) by (simp add: fl_div_def rnd_def)
  have last: "?step m (Fin 0, Fin 0) = (pv, fl_mul fl (fl (of_int m / freq)) pv)"
    using rnd_absorb [of fl, OF assms(4)]
    by (simp add: Let_def cf disc tm pv_def fl_div_def [of fl "Fin face"] fl_mul_def)
  have fold_eq: "fold ?step [1..m] (Fin 0, Fin 0) = (pv, fl_mul fl (fl (of_int m / freq)) pv)"
    by (simp only: split fold_append fold_simps comp_apply id_apply prefix last)
  show "macaulayDuration fl pw (Fin face) (Fin 0) (Fin yieldRate) years freq
           = Some (fl_div fl (fl_mul fl (fl (of_int m / freq)) pv) pv)"
    unfolding unf loop fold_eq by simp
qed

lemma fl_quarter_idem: "\<forall>x v. fl_quarter x = Fin v \<longrightarrow> fl_quarter v = Fin v"
proof (intro allI impI)
  fix x v
  assume a: "fl_quarter x = Fin v"
  define n where "n = \<lfloor>4 * x + 1 / 2\<rfloor>"
  have v: "v = of_int n / 4"
    using a by (simp add: fl_quarter_def n_def)
  have "\<lfloor>of_int n + (1 / 2 :: real)\<rfloor> = n"
    by (rule floor_unique) simp_all
  then show "fl_quarter v = Fin v"
    by (simp add: fl_quarter_def v)
qed

lemma fl_exact_idem: "\<forall>x v. fl_exact x = Fin v \<longrightarrow> fl_exact v = Fin v"
  by (simp add: fl_exact_def)

text \<open>
  Claim C5, as stated: the duration of a zero-coupon bond equals \<open>years\<close> exactly
  whenever \<open>round(years * freq) \<ge> 1\<close>. With \<open>face = 125\<close>, \<open>yieldRate = 0.25\<close>,
  \<open>years = 1.25\<close> and \<open>freq = 1\<close> there is one period, and the duration is 1, not
  1.25. Every value of this run (\<open>1.25\<close>, \<open>0.25\<close>, \<open>100\<close>, \<open>1\<close>) is a small multiple
  of \<open>1/4\<close>, hence a double that no rounding changes; the run is the same in exact
  arithmetic and in the arithmetic that rounds to quarters.
\<close>

theorem macaulayDuration_rounds_periods:
  "macaulayDuration fl_exact pw_exact (Fin 125) (Fin 0) (Fin (1 / 4)) (5 / 4) 1 = Some (Fin 1) \<and>
   macaulayDuration fl_quarter pw_quarter (Fin 125) (Fin 0) (Fin (1 / 4)) (5 / 4) 1
     = Some (Fin 1) \<and>
   (1 :: real) \<noteq> 5 / 4"
proof -
  have m: "Math_round (5 / 4) = 1"
    by (simp add: Math_round_def)
  have pwe: "pw_exact (5 / 4) 1 = Fin (5 / 4)"
    by (simp add: pw_exact_def real_pow_def is_int_def)
  have pwq: "pw_quarter (5 / 4) 1 = Fin (5 / 4)"
    by (simp add: pw_quarter_def fl_quarter_def real_pow_def is_int_def)
  have e1: "\<forall>t\<in>{1..Math_round (5 / 4)}. \<exists>d. d \<noteq> 0 \<and> pw_exact (5 / 4) (of_int t) = Fin d"
    unfolding m using pwe by (intro ballI exI [of _ "5 / 4"]) simp
  have e2: "\<forall>t\<in>{1..Math_round (5 / 4)}. Number_isFinite (fl_exact (of_int t / 1))"
    by (simp add: fl_exact_def)
  have q1: "\<forall>t\<in>{1..Math_round (5 / 4)}. \<exists>d. d \<noteq> 0 \<and> pw_quarter (5 / 4) (of_int t) = Fin d"
    unfolding m using pwq by (intro ballI exI [of _ "5 / 4"]) simp
  have q2: "\<forall>t\<in>{1..Math_round (5 / 4)}. Number_isFinite (fl_quarter (of_int t / 1))"
    by (simp add: fl_quarter_def)
  have exact:
    "macaulayDuration fl_exact pw_exact (Fin 125) (Fin 0) (Fin (1 / 4)) (5 / 4) 1 = Some (Fin 1)"
    using duration_zero_coupon_value [where fl = fl_exact and pw = pw_exact and face = 125
        and yieldRate = "1 / 4" and years = "5 / 4" and freq = 1 and prod = "5 / 4"
        and yv = "1 / 4" and b = "5 / 4", OF _ fl_exact_idem _ _ _ _ _ _ _ _ e1 e2]
    by (simp add: m pwe fl_div_def fl_mul_def rnd_def) (simp add: fl_exact_def)
  have quarter:
    "macaulayDuration fl_quarter pw_quarter (Fin 125) (Fin 0) (Fin (1 / 4)) (5 / 4) 1
      = Some (Fin 1)"
    using duration_zero_coupon_value [where fl = fl_quarter and pw = pw_quarter and face = 125
        and yieldRate = "1 / 4" and years = "5 / 4" and freq = 1 and prod = "5 / 4"
        and yv = "1 / 4" and b = "5 / 4", OF _ fl_quarter_idem _ _ _ _ _ _ _ _ q1 q2]
    by (simp add: m pwq fl_div_def fl_mul_def rnd_def) (simp add: fl_quarter_def)
  from exact quarter show ?thesis
    by simp
qed

text \<open>
  Claim C5, amended: on doubles, where \<open>fl\<close> rounds a real to a double and leaves 0 and
  every double unchanged. For a zero-coupon bond whose face value is a double, with
  \<open>freq \<noteq> 0\<close>, a period count \<open>m = Math.round(years * freq)\<close> (of the rounded product)
  with \<open>1 \<le> m < 2^53\<close>, a finite base \<open>1 + yieldRate / freq\<close> other than 0 whose powers
  \<open>Math.pow(base, t)\<close> are finite and not 0 and finite quotients \<open>t / freq\<close> for
  \<open>t = 1..m\<close>, \<open>macaulayDuration\<close> returns \<open>((m / freq) * pv) / pv\<close> with
  \<open>pv = face / Math.pow(base, m)\<close>, each of the operations rounded: all weight is on the
  last payment. The result is \<open>m / freq\<close> up to three roundings: when the quotient
  \<open>m / freq\<close>, the product and the last quotient are finite, \<open>pv\<close> is not 0 and each
  rounding has a relative error of at most \<open>u\<close>, the result is within the relative error
  \<open>(1 + u)^3 - 1\<close> of \<open>m / freq\<close>. It need not be \<open>m / freq\<close> exactly, and \<open>m / freq\<close>
  is \<open>years\<close> only when \<open>years * freq\<close> is a whole number.
\<close>

theorem macaulayDuration_zero_coupon:
  fixes fl :: "real \<Rightarrow> jsnum" and pw :: "real \<Rightarrow> real \<Rightarrow> jsnum"
    and face yieldRate years freq prod yv b :: real
  defines "m \<equiv> Math_round prod"
  defines "pv \<equiv> fl_div fl (Fin face) (pw b (of_int m))"
  assumes "fl 0 = Fin 0" and "\<forall>x v. fl x = Fin v \<longrightarrow> fl v = Fin v"
    and "fl face = Fin face" and "freq \<noteq> 0"
    and "fl (years * freq) = Fin prod" and "1 \<le> m" and "m < 2 ^ 53"
    and "fl (yieldRate / freq) = Fin yv" and "fl (1 + yv) = Fin b" and "b \<noteq> 0"
    and "\<forall>t\<in>{1..m}. \<exists>d. d \<noteq> 0 \<and> pw b (of_int t) = Fin d"
    and "\<forall>t\<in>{1..m}. Number_isFinite (fl (of_int t / freq))"
  shows "macaulayDuration fl pw (Fin face) (Fin 0) (Fin yieldRate) years freq
           = Some (fl_div fl (fl_mul fl (fl (of_int m / freq)) pv) pv) \<and>
         (\<forall>k p w r u.
            fl (of_int m / freq) = Fin k \<and> pv = Fin p \<and> p \<noteq> 0 \<and>
            fl (k * p) = Fin w \<and> fl (w / p) = Fin r \<and>
            \<bar>k - of_int m / freq\<bar> \<le> u * \<bar>of_int m / freq\<bar> \<and>
            \<bar>w - k * p\<bar> \<le> u * \<bar>k * p\<bar> \<and> \<bar>r - w / p\<bar> \<le> u * \<bar>w / p\<bar> \<longrightarrow>
            macaulayDuration fl pw (Fin face) (Fin 0) (Fin yieldRate) years freq = Some (Fin r) \<and>
            \<bar>r - of_int m / freq\<bar> \<le> ((1 + u) ^ 3 - 1) * \<bar>of_int m / freq\<bar>)"
proof -
  have res: "macaulayDuration fl pw (Fin face) (Fin 0) (Fin yieldRate) years freq
           = Some (fl_div fl (fl_mul fl (fl (of_int m / freq)) pv) pv)"
    unfolding pv_def m_def
    by (rule duration_zero_coupon_value [where fl = fl and pw = pw and yv = yv and b = b,
          OF assms(3-14) [unfolded m_def]])
  have x: "of_int m / freq \<noteq> 0"
    using assms(6,8) by simp
  have "macaulayDuration fl pw (Fin face) (Fin 0) (Fin yieldRate) years freq = Some (Fin r) \<and>
        \<bar>r - of_int m / freq\<bar> \<le> ((1 + u) ^ 3 - 1) * \<bar>of_int m / freq\<bar>"
    if h: "fl (of_int m / freq) = Fin k" "pv = Fin p" "p \<noteq> 0"
      "fl (k * p) = Fin w" "fl (w / p) = Fin r"
      "\<bar>k - of_int m / freq\<bar> \<le> u * \<bar>of_int m / freq\<bar>"
      "\<bar>w - k * p\<bar> \<le> u * \<bar>k * p\<bar>" "\<bar>r - w / p\<bar> \<le> u * \<bar>w / p\<bar>"
    for k p w r u
  proof
    show "macaulayDuration fl pw (Fin face) (Fin 0) (Fin yieldRate) years freq = Some (Fin r)"
      unfolding res h(1,2) using h(3,4,5) by (simp add: fl_div_def fl_mul_def rnd_def)
    have "w / p - k = (w - k * p) / p"
      using h(3) by (simp add: field_simps)
    then have "\<bar>w / p - k\<bar> = \<bar>w - k * p\<bar> / \<bar>p\<bar>"
      by (simp only: abs_divide)
    also have "\<dots> \<le> u * \<bar>k * p\<bar> / \<bar>p\<bar>"
      using h(7) by (intro divide_right_mono) simp_all
    also have "\<dots> = u * \<bar>k\<bar>"
      using h(3) by (simp add: abs_mult)
    finally have "\<bar>w / p - k\<bar> \<le> u * \<bar>k\<bar>" .
    from three_roundings [OF h(6) this h(8) x]
    show "\<bar>r - of_int m / freq\<bar> \<le> ((1 + u) ^ 3 - 1) * \<bar>of_int m / freq\<bar>" .
  qed
  with res show ?thesis
    by blast
qed

theorem macaulayDuration_zero_coupon_witness:
  "macaulayDuration fl_quarter pw_quarter (Fin (5 / 2)) (Fin 0) (Fin 1) (3 / 2) 2
     = Some (Fin (7 / 4)) \<and>
   \<bar>7 / 4 - 3 / 2 :: real\<bar> \<le> ((1 + 1 / 8) ^ 3 - 1) * \<bar>3 / 2\<bar>"
proof -
  have three: "{1..3::int} = {1, 2, 3}"
    by auto
  have m: "Math_round 3 = 3"
    by (simp add: Math_round_def)
  have pws: "pw_quarter (3 / 2) 1 = Fin (3 / 2)" "pw_quarter (3 / 2) 2 = Fin (9 / 4)"
    "pw_quarter (3 / 2) 3 = Fin (7 / 2)"
    by (simp_all add: pw_quarter_def fl_quarter_def real_pow_def is_int_def power_divide)
  have q1: "\<forall>t\<in>{1..Math_round 3}. \<exists>d. d \<noteq> 0 \<and> pw_quarter (3 / 2) (of_int t) = Fin d"
  proof
    fix t :: int
    assume "t \<in> {1..Math_round 3}"
    then consider "t = 1" | "t = 2" | "t = 3"
      unfolding m three by blast
    then show "\<exists>d. d \<noteq> 0 \<and> pw_quarter (3 / 2) (of_int t) = Fin d"
    proof cases
      case 1
      with pws(1) show ?thesis by (intro exI [of _ "3 / 2"]) simp
    next
      case 2
      with pws(2) show ?thesis by (intro exI [of _ "9 / 4"]) simp
    next
      case 3
      with pws(3) show ?thesis by (intro exI [of _ "7 / 2"]) simp
    qed
  qed
  have q2: "\<forall>t\<in>{1..Math_round 3}. Number_isFinite (fl_quarter (of_int t / 2))"
    by (simp add: fl_quarter_def)
  have vals: "fl_quarter (3 / 2) = Fin (3 / 2)" "fl_quarter (5 / 7) = Fin (3 / 4)"
    "fl_quarter (9 / 8) = Fin (5 / 4)" "fl_quarter (5 / 3) = Fin (7 / 4)"
    by (simp_all add: fl_quarter_def)
  from macaulayDuration_zero_coupon [where fl = fl_quarter and pw = pw_quarter
        and face = "5 / 2" and yieldRate = 1 and years = "3 / 2" and freq = 2 and prod = 3
        and yv = "1 / 2" and b = "3 / 2", OF _ fl_quarter_idem _ _ _ _ _ _ _ _ q1 q2,
        THEN conjunct2, rule_format, of "3 / 2" "3 / 4" "5 / 4" "7 / 4" "1 / 8"]
  show ?thesis
    by (simp add: m pws vals fl_div_def rnd_def) (simp add: fl_quarter_def)
qed

section \<open>Bond yield against bond price\<close>












end
